theory Spec2Isabelle
  imports Complex_Main "HOL-Library.Product_Lexorder" "HOL-Library.Option_ord"
    "HOL-Library.Multiset"
begin

section \<open>Data model\<close>

text \<open>
  The schema of the first migration. A \<open>UUID\<close> is a natural number, a
  \<open>TIMESTAMP WITH TIME ZONE\<close> an integer number of clock ticks, a nullable column an
  \<open>option\<close> (\<open>None\<close> is SQL \<open>NULL\<close>), a \<open>DECIMAL\<close> a rational, a \<open>JSONB\<close> document
  that no routine inspects a string. A table is the list of its rows.
\<close>

type_synonym uuid = nat
type_synonym timestamptz = int

datatype user_role = Customer | Barber | Admin

datatype booking_status = Waiting | In_progress | Completed | Cancelled | No_show

datatype sql_error =
    Integer_out_of_range
  | Numeric_field_overflow
  | Undefined_object string
  | Invalid_text_representation string
  | Unique_violation
  | Foreign_key_violation
  | Check_violation

text \<open>
  The three tables with an \<open>updated_at\<close> column share it through a common record, so that
  the one trigger function \<open>update_updated_at_column\<close> serves all of them, as in the source.
\<close>

record timestamped =
  updated_at :: "timestamptz option"

record profile = timestamped +
  p_id :: uuid
  p_user_id :: uuid
  name :: string
  phone :: "string option"
  role :: user_role
  p_created_at :: "timestamptz option"

record barber_shop = timestamped +
  s_id :: uuid
  s_user_id :: uuid
  shop_name :: string
  shop_address :: string
  latitude :: "rat option"
  longitude :: "rat option"
  services :: "string option"
  working_hours :: "string option"
  cover_image_url :: "string option"
  rating_avg :: "rat option"
  total_reviews :: "int option"
  total_bookings :: "int option"
  max_queue_limit :: "int option"
  avg_service_duration :: "int option"
  is_active :: "bool option"
  s_created_at :: "timestamptz option"

record booking = timestamped +
  b_id :: uuid
  b_user_id :: uuid
  b_shop_id :: uuid
  service_name :: string
  service_price :: "rat option"
  status :: "booking_status option"
  queue_position :: "int option"
  estimated_wait_time :: "int option"
  joined_at :: "timestamptz option"
  started_at :: "timestamptz option"
  completed_at :: "timestamptz option"
  b_created_at :: "timestamptz option"

record review =
  r_id :: uuid
  r_user_id :: uuid
  r_shop_id :: uuid
  booking_id :: "uuid option"
  rating :: int
  review_text :: "string option"
  tags :: "string list option"
  r_created_at :: "timestamptz option"

datatype json = JNull | JString string

text \<open>
  A row of \<open>auth.users\<close>: the identity and its signup metadata, a JSON object held as an
  association list (the first entry of a key is the one \<open>->>\<close> reads). A member is JSON
  \<open>null\<close> or has a text, which is all that \<open>->>\<close> reads of it.
\<close>

record auth_user =
  u_id :: uuid
  raw_user_meta_data :: "(string \<times> json) list option"

record db =
  users :: "auth_user list"
  profiles :: "profile list"
  barber_shops :: "barber_shop list"
  bookings :: "booking list"
  reviews :: "review list"
  enum_types :: "(string \<times> string) list"

section \<open>SQL arithmetic\<close>

text \<open>
  \<open>INTEGER\<close> is a signed 32-bit integer. PostgreSQL does not wrap: an operation whose
  result leaves the range raises \<open>integer out of range\<close>. An operation on \<open>NULL\<close> is
  \<open>NULL\<close>.
\<close>

definition int4 :: "int \<Rightarrow> sql_error + int" where
  "int4 x = (if - 2147483648 \<le> x \<and> x \<le> 2147483647 then Inr x else Inl Integer_out_of_range)"

definition int4_opt :: "int option \<Rightarrow> sql_error + int option" where
  "int4_opt x = (case x of None \<Rightarrow> Inr None
                 | Some v \<Rightarrow> (case int4 v of Inl e \<Rightarrow> Inl e | Inr w \<Rightarrow> Inr (Some w)))"

definition sql_mul :: "int option \<Rightarrow> int option \<Rightarrow> int option" where
  "sql_mul a b = (case a of None \<Rightarrow> None
                  | Some x \<Rightarrow> (case b of None \<Rightarrow> None | Some y \<Rightarrow> Some (x * y)))"

definition int4_mul :: "int option \<Rightarrow> int option \<Rightarrow> sql_error + int option" where
  "int4_mul a b = int4_opt (sql_mul a b)"

section \<open>The timestamp touch trigger\<close>

text \<open>
  \<open>update_updated_at_column\<close>: \<open>NEW.updated_at = now(); RETURN NEW\<close>. The first argument is
  the value of \<open>now()\<close>, the start time of the running transaction.
\<close>

definition update_updated_at_column ::
    "timestamptz \<Rightarrow> 'a timestamped_scheme \<Rightarrow> 'a timestamped_scheme" where
  "update_updated_at_column now new = new\<lparr>updated_at := Some now\<rparr>"

text \<open>
  \<open>UPDATE t SET ... WHERE ...\<close> on a table that carries the \<open>BEFORE UPDATE ... FOR EACH ROW\<close>
  trigger (\<open>profiles\<close>, \<open>barber_shops\<close>, \<open>bookings\<close>): every row the \<open>WHERE\<close> clause selects
  gets the \<open>SET\<close> assignments, then passes through the trigger, and is written.
\<close>

definition sql_update ::
    "timestamptz \<Rightarrow> ('a timestamped_scheme \<Rightarrow> bool) \<Rightarrow>
     ('a timestamped_scheme \<Rightarrow> 'a timestamped_scheme) \<Rightarrow>
     'a timestamped_scheme list \<Rightarrow> 'a timestamped_scheme list" where
  "sql_update now wh st rows =
     map (\<lambda>r. if wh r then update_updated_at_column now (st r) else r) rows"

section \<open>The queue recompute procedure\<close>

text \<open>
  \<open>SELECT avg_service_duration INTO avg_duration FROM public.barber_shops WHERE id = shop_uuid\<close>:
  the column of the first row found, \<open>NULL\<close> when there is none.
\<close>

definition select_avg_duration :: "uuid \<Rightarrow> db \<Rightarrow> int option" where
  "select_avg_duration shop_uuid d =
     (case filter (\<lambda>s. s_id s = shop_uuid) (barber_shops d) of
        [] \<Rightarrow> None
      | s # _ \<Rightarrow> avg_service_duration s)"

text \<open>
  The query of the \<open>FOR\<close> loop selects the waiting bookings of the shop,
  \<open>ORDER BY joined_at ASC\<close>: \<open>NULL\<close> comes last, and the statement names no further
  key, so rows with equal \<open>joined_at\<close> come out in whichever order the engine chooses.
  \<open>loop_query shop_uuid d rows\<close> says that \<open>rows\<close> is an answer the query may give on
  \<open>d\<close>: the selected rows, each once, ascending in \<open>joined_at\<close>.
\<close>

definition joined_key :: "booking \<Rightarrow> nat \<times> int" where
  "joined_key b = (case joined_at b of None \<Rightarrow> (1, 0) | Some t \<Rightarrow> (0, t))"

definition is_waiting :: "uuid \<Rightarrow> booking \<Rightarrow> bool" where
  "is_waiting shop_uuid b \<longleftrightarrow> b_shop_id b = shop_uuid \<and> status b = Some Waiting"

definition loop_query :: "uuid \<Rightarrow> db \<Rightarrow> booking list \<Rightarrow> bool" where
  "loop_query shop_uuid d rows \<longleftrightarrow>
     mset rows = mset (filter (is_waiting shop_uuid) (bookings d)) \<and>
     sorted (map joined_key rows)"

text \<open>
  The body of the \<open>FOR\<close> loop. The query of the loop is evaluated on the table as it was
  when the loop started, so the loop runs over a fixed list of ids.
\<close>

fun queue_loop ::
    "timestamptz \<Rightarrow> int option \<Rightarrow> uuid list \<Rightarrow> int \<Rightarrow> booking list \<Rightarrow> sql_error + booking list" where
  "queue_loop now avg_duration [] position_counter bs = Inr bs"
| "queue_loop now avg_duration (booking_record # rest) position_counter bs =
     (case int4 (position_counter - 1) of
        Inl e \<Rightarrow> Inl e
      | Inr p1 \<Rightarrow>
         (case int4_mul (Some p1) avg_duration of
            Inl e \<Rightarrow> Inl e
          | Inr w \<Rightarrow>
             (let bs' = sql_update now (\<lambda>b. b_id b = booking_record)
                          (\<lambda>b. b\<lparr>queue_position := Some position_counter,
                                  estimated_wait_time := w\<rparr>) bs
              in case int4 (position_counter + 1) of
                   Inl e \<Rightarrow> Inl e
                 | Inr next_counter \<Rightarrow> queue_loop now avg_duration rest next_counter bs')))"

text \<open>
  \<open>update_queue_positions\<close>; \<open>rows\<close> is the answer of the loop's query, the one choice
  the engine makes in a call.
\<close>

definition update_queue_positions ::
    "timestamptz \<Rightarrow> booking list \<Rightarrow> uuid \<Rightarrow> db \<Rightarrow> sql_error + db" where
  "update_queue_positions now rows shop_uuid d =
     (let avg_duration = select_avg_duration shop_uuid d in
      case queue_loop now avg_duration (map b_id rows) 1 (bookings d) of
        Inl e \<Rightarrow> Inl e
      | Inr bs \<Rightarrow> Inr (d\<lparr>bookings := bs\<rparr>))"

text \<open>
  A call from the client (\<open>supabase.rpc('update_queue_positions', ...)\<close>) is one
  transaction: an error rolls it back and the database is as before.
\<close>

definition rpc_update_queue_positions ::
    "timestamptz \<Rightarrow> booking list \<Rightarrow> uuid \<Rightarrow> db \<Rightarrow> db" where
  "rpc_update_queue_positions now rows shop_uuid d =
     (case update_queue_positions now rows shop_uuid d of Inl e \<Rightarrow> d | Inr d' \<Rightarrow> d')"

text \<open>
  The waiting bookings of a shop listed by their \<open>queue_position\<close>: the queue as the
  table holds it.
\<close>

definition queue_by_position :: "uuid \<Rightarrow> db \<Rightarrow> booking list" where
  "queue_by_position shop_uuid d =
     sort_key queue_position (filter (is_waiting shop_uuid) (bookings d))"

text \<open>The primary key of \<open>bookings\<close>: no two rows share an \<open>id\<close>.\<close>

definition bookings_pkey :: "db \<Rightarrow> bool" where
  "bookings_pkey d \<longleftrightarrow> distinct (map b_id (bookings d))"

text \<open>
  The waits \<open>(p - 1) * avg_duration\<close> of the positions \<open>p = 1, ..., n\<close> are in the range of
  \<open>INTEGER\<close>.
\<close>

definition waits_in_range :: "int option \<Rightarrow> nat \<Rightarrow> bool" where
  "waits_in_range a n \<longleftrightarrow>
     (case a of
        None \<Rightarrow> True
      | Some v \<Rightarrow> list_all (\<lambda>k. - 2147483648 \<le> int k * v \<and> int k * v \<le> 2147483647) [0..<n])"

text \<open>
  What the loop writes into a row, as a function of the row: the first id of the loop's
  list that is the row's decides. Used to describe the result of \<open>queue_loop\<close>.
\<close>

fun assign :: "timestamptz \<Rightarrow> int option \<Rightarrow> uuid list \<Rightarrow> int \<Rightarrow> booking \<Rightarrow> booking" where
  "assign now a [] pc b = b"
| "assign now a (i # ids) pc b =
     (if b_id b = i
      then b\<lparr>updated_at := Some now, queue_position := Some pc,
              estimated_wait_time := sql_mul (Some (pc - 1)) a\<rparr>
      else assign now a ids (pc + 1) b)"


definition same_but_updated_at :: "booking \<Rightarrow> booking \<Rightarrow> bool" where
  "same_but_updated_at b b' \<longleftrightarrow> b'\<lparr>updated_at := updated_at b\<rparr> = b"

section \<open>Successive updates of one row\<close>

text \<open>
  The history of one row of a table with the trigger. An \<open>UPDATE\<close> of the row is the
  start time of its transaction, which is what \<open>now()\<close> returns in it, the time at which
  the update is done, and the \<open>SET\<close> assignments of the caller, which may assign
  \<open>updated_at\<close> too. The updates are listed in the order in which they are done, and the
  result is the list of the versions of the row that were written.
\<close>

fun successive_updates ::
    "(timestamptz \<times> timestamptz \<times> ('a timestamped_scheme \<Rightarrow> 'a timestamped_scheme)) list \<Rightarrow>
     'a timestamped_scheme \<Rightarrow> 'a timestamped_scheme list" where
  "successive_updates [] r = []"
| "successive_updates ((started, done_at, st) # us) r =
     (let r' = update_updated_at_column started (st r) in r' # successive_updates us r')"

text \<open>
  A history is in time order when no update is done before its transaction started and
  the updates are done one after the other. Its transactions do not overlap when each
  starts no earlier than the update before it was done, and are apart when each starts
  later than that.
\<close>

definition in_time_order :: "(timestamptz \<times> timestamptz \<times> 'b) list \<Rightarrow> bool" where
  "in_time_order us \<longleftrightarrow>
     list_all (\<lambda>u. fst u \<le> fst (snd u)) us \<and> sorted (map (\<lambda>u. fst (snd u)) us)"

fun not_overlapping :: "(timestamptz \<times> timestamptz \<times> 'b) list \<Rightarrow> bool" where
  "not_overlapping (u # v # us) = (fst (snd u) \<le> fst v \<and> not_overlapping (v # us))"
| "not_overlapping us = True"

fun apart :: "(timestamptz \<times> timestamptz \<times> 'b) list \<Rightarrow> bool" where
  "apart (u # v # us) = (fst (snd u) < fst v \<and> apart (v # us))"
| "apart us = True"

section \<open>The rating aggregation trigger\<close>

text \<open>
  \<open>AVG\<close> of no rows is \<open>NULL\<close>; otherwise it is the mean, taken here as the exact
  quotient (the engine keeps at least 16 significant digits of it, which rounds to two
  places as the exact quotient does for any number of rows an \<open>INTEGER\<close> can count).
  \<open>ROUND(x, n)\<close> on \<open>numeric\<close> goes to the nearest multiple of \<open>10\<^sup>-\<^sup>n\<close>, a tie away from
  zero. A value stored in a \<open>DECIMAL(3,2)\<close> column is rounded to two places and must then
  be below 10 in absolute value.
\<close>

definition sql_avg :: "int list \<Rightarrow> rat option" where
  "sql_avg xs = (if xs = [] then None else Some (of_int (sum_list xs) / of_int (int (length xs))))"

definition sql_round :: "rat \<Rightarrow> nat \<Rightarrow> rat" where
  "sql_round x n =
     (if 0 \<le> x then of_int \<lfloor>x * 10 ^ n + 1 / 2\<rfloor> / 10 ^ n
      else - (of_int \<lfloor>- x * 10 ^ n + 1 / 2\<rfloor> / 10 ^ n))"

definition decimal_3_2 :: "rat option \<Rightarrow> sql_error + rat option" where
  "decimal_3_2 x =
     (case x of
        None \<Rightarrow> Inr None
      | Some v \<Rightarrow> (let r = sql_round v 2
                   in if \<bar>r\<bar> < 10 then Inr (Some r) else Inl Numeric_field_overflow))"

text \<open>
  \<open>update_shop_rating\<close>, the trigger function; \<open>new\<close> is the inserted review and
  \<open>visible\<close> the rows of \<open>reviews\<close> that the snapshot of its \<open>UPDATE\<close> statement sees:
  under the default isolation level these are the rows committed when the statement
  began and the rows the transaction wrote itself, so a row that an overlapping
  transaction is inserting is not among them. The two subqueries are evaluated only
  when a shop row is updated. \<open>COUNT(*)\<close> is a \<open>bigint\<close> and is stored in an \<open>INTEGER\<close>
  column. The \<open>UPDATE\<close> of \<open>barber_shops\<close> fires the timestamp trigger of that table.
\<close>

definition update_shop_rating :: "timestamptz \<Rightarrow> review \<Rightarrow> review list \<Rightarrow> db \<Rightarrow> sql_error + db" where
  "update_shop_rating now new visible d =
     (if filter (\<lambda>s. s_id s = r_shop_id new) (barber_shops d) = [] then Inr d
      else
        case decimal_3_2
               (map_option (\<lambda>a. sql_round a 2)
                  (sql_avg (map rating (filter (\<lambda>r. r_shop_id r = r_shop_id new) visible)))) of
          Inl e \<Rightarrow> Inl e
        | Inr avg \<Rightarrow>
           (case int4 (int (length (filter (\<lambda>r. r_shop_id r = r_shop_id new) visible))) of
              Inl e \<Rightarrow> Inl e
            | Inr cnt \<Rightarrow>
                Inr (d\<lparr>barber_shops :=
                        sql_update now (\<lambda>s. s_id s = r_shop_id new)
                          (\<lambda>s. s\<lparr>rating_avg := avg, total_reviews := Some cnt\<rparr>)
                          (barber_shops d)\<rparr>)))"

text \<open>
  \<open>INSERT INTO reviews\<close> of one row, applied to the committed database \<open>d\<close>: the \<open>CHECK\<close>
  on \<open>rating\<close>, the primary key, the \<open>UNIQUE(user_id, booking_id)\<close> constraint (a \<open>NULL\<close>
  \<open>booking_id\<close> never conflicts), the foreign keys, and then the \<open>AFTER INSERT\<close> trigger
  \<open>update_shop_rating_on_review\<close>, which sees the rows of the snapshot \<open>snapshot\<close> and
  the new row. When no other transaction overlaps, \<open>snapshot\<close> is \<open>reviews d\<close>. An error
  in any step aborts the statement.
\<close>

definition insert_review :: "timestamptz \<Rightarrow> review \<Rightarrow> review list \<Rightarrow> db \<Rightarrow> sql_error + db" where
  "insert_review now new snapshot d =
     (if \<not> (1 \<le> rating new \<and> rating new \<le> 5) then Inl Check_violation
      else if r_id new \<in> set (map r_id (reviews d)) then Inl Unique_violation
      else if booking_id new \<noteq> None \<and>
              (r_user_id new, booking_id new) \<in>
                set (map (\<lambda>r. (r_user_id r, booking_id r)) (reviews d))
        then Inl Unique_violation
      else if r_user_id new \<notin> set (map u_id (users d)) \<or>
              r_shop_id new \<notin> set (map s_id (barber_shops d)) \<or>
              (case booking_id new of None \<Rightarrow> False
               | Some b \<Rightarrow> b \<notin> set (map b_id (bookings d)))
        then Inl Foreign_key_violation
      else update_shop_rating now new (snapshot @ [new]) (d\<lparr>reviews := reviews d @ [new]\<rparr>))"

text \<open>
  \<open>UPDATE reviews SET rating = ... WHERE id = ...\<close> issued by the user \<open>uid\<close>. The policy
  "Users can update their own reviews" lets it reach the rows of that user; the \<open>CHECK\<close> on
  \<open>rating\<close> applies; the table has no \<open>UPDATE\<close> trigger.
\<close>

definition update_review_rating :: "uuid \<Rightarrow> uuid \<Rightarrow> int \<Rightarrow> db \<Rightarrow> sql_error + db" where
  "update_review_rating uid rid x d =
     (if filter (\<lambda>r. r_user_id r = uid \<and> r_id r = rid) (reviews d) \<noteq> [] \<and> \<not> (1 \<le> x \<and> x \<le> 5)
      then Inl Check_violation
      else Inr (d\<lparr>reviews := map (\<lambda>r. if r_user_id r = uid \<and> r_id r = rid
                                        then r\<lparr>rating := x\<rparr> else r) (reviews d)\<rparr>))"

text \<open>
  The aggregate in the words of the specification: the review rows of a shop, the mean
  of their ratings, \<open>round(mean(R.rating), 2)\<close> with the library's \<open>round\<close> (to the
  nearest integer), and \<open>len(R)\<close>; and a shop row whose cached aggregate agrees with the
  review rows of the shop in the table.
\<close>

definition shop_reviews :: "uuid \<Rightarrow> db \<Rightarrow> review list" where
  "shop_reviews shop d = [r \<leftarrow> reviews d. r_shop_id r = shop]"

definition mean :: "int list \<Rightarrow> rat" where
  "mean xs = of_int (sum_list xs) / of_int (int (length xs))"

definition round2 :: "rat \<Rightarrow> rat" where
  "round2 x = of_int (round (x * 100)) / 100"

definition rating_cache_ok :: "db \<Rightarrow> barber_shop \<Rightarrow> bool" where
  "rating_cache_ok d s \<longleftrightarrow>
     rating_avg s = (if shop_reviews (s_id s) d = [] then None
                     else Some (round2 (mean (map rating (shop_reviews (s_id s) d))))) \<and>
     total_reviews s = Some (int (length (shop_reviews (s_id s) d)))"

definition rating_caches_ok :: "db \<Rightarrow> bool" where
  "rating_caches_ok d \<longleftrightarrow> list_all (rating_cache_ok d) (barber_shops d)"

text \<open>The \<open>CHECK (rating >= 1 AND rating <= 5)\<close> constraint, as a property of the table.\<close>

definition reviews_rating_check :: "db \<Rightarrow> bool" where
  "reviews_rating_check d \<longleftrightarrow> list_all (\<lambda>r. 1 \<le> rating r \<and> rating r \<le> 5) (reviews d)"

section \<open>Identity-linked profile creation\<close>

text \<open>
  \<open>doc ->> key\<close>: the text of the member, \<open>NULL\<close> when the document is \<open>NULL\<close>, the key is
  absent or the member is JSON \<open>null\<close>.
\<close>

definition json_get_text :: "(string \<times> json) list option \<Rightarrow> string \<Rightarrow> string option" where
  "json_get_text doc k =
     (case doc of
        None \<Rightarrow> None
      | Some kv \<Rightarrow> (case map_of kv k of
                     None \<Rightarrow> None
                   | Some JNull \<Rightarrow> None
                   | Some (JString v) \<Rightarrow> Some v))"

definition coalesce :: "'a option \<Rightarrow> 'a \<Rightarrow> 'a" where
  "coalesce x y = (case x of None \<Rightarrow> y | Some v \<Rightarrow> v)"

text \<open>The labels of \<open>CREATE TYPE user_role AS ENUM ('customer', 'barber', 'admin')\<close>.\<close>

fun role_label :: "user_role \<Rightarrow> string" where
  "role_label Customer = ''customer''"
| "role_label Barber = ''barber''"
| "role_label Admin = ''admin''"

definition cast_user_role :: "string option \<Rightarrow> sql_error + user_role option" where
  "cast_user_role x =
     (case x of
        None \<Rightarrow> Inr None
      | Some v \<Rightarrow>
          (if v = ''customer'' then Inr (Some Customer)
           else if v = ''barber'' then Inr (Some Barber)
           else if v = ''admin'' then Inr (Some Admin)
           else Inl (Invalid_text_representation v)))"

text \<open>
  The catalog of enum types is a list of (schema, name). A type name written without a
  schema resolves when a schema of the search path holds it; \<open>pg_catalog\<close> is searched
  whatever the path is. The migrations create the types under unqualified names
  (\<open>CREATE TYPE user_role\<close>, \<open>CREATE TYPE booking_status\<close>), which puts them beside the
  tables, in \<open>public\<close>; and the function is declared with \<open>SET search_path = ''\<close>, the
  empty path.
\<close>

definition type_resolves :: "string list \<Rightarrow> (string \<times> string) list \<Rightarrow> string \<Rightarrow> bool" where
  "type_resolves path cat n \<longleftrightarrow> list_ex (\<lambda>sch. (sch, n) \<in> set cat) (''pg_catalog'' # path)"

definition migration_enum_types :: "(string \<times> string) list" where
  "migration_enum_types = [(''public'', ''user_role''), (''public'', ''booking_status'')]"

definition handle_new_user_search_path :: "string list" where
  "handle_new_user_search_path = []"

text \<open>
  \<open>INSERT INTO public.profiles\<close> of one row: the primary key, \<open>UNIQUE(user_id)\<close> and the
  foreign key to \<open>auth.users\<close>.
\<close>

definition insert_profile :: "profile \<Rightarrow> db \<Rightarrow> sql_error + db" where
  "insert_profile p d =
     (if p_id p \<in> set (map p_id (profiles d)) then Inl Unique_violation
      else if p_user_id p \<in> set (map p_user_id (profiles d)) then Inl Unique_violation
      else if p_user_id p \<notin> set (map u_id (users d)) then Inl Foreign_key_violation
      else Inr (d\<lparr>profiles := profiles d @ [p]\<rparr>))"

text \<open>
  \<open>handle_new_user\<close>, the trigger function; \<open>new\<close> is the inserted row of \<open>auth.users\<close>,
  \<open>gen\<close> the value \<open>gen_random_uuid()\<close> gives the \<open>id\<close> column, \<open>now\<close> the value of \<open>now()\<close>
  for the two timestamp defaults. The statement is analysed before it runs, and the cast
  \<open>::user_role\<close> names the type without a schema. The function has no \<open>EXCEPTION\<close> block
  and the \<open>INSERT\<close> no \<open>ON CONFLICT\<close> clause.
\<close>

definition handle_new_user :: "timestamptz \<Rightarrow> uuid \<Rightarrow> auth_user \<Rightarrow> db \<Rightarrow> sql_error + db" where
  "handle_new_user now gen new d =
     (if \<not> type_resolves handle_new_user_search_path (enum_types d) ''user_role''
      then Inl (Undefined_object ''user_role'')
      else
        case cast_user_role (json_get_text (raw_user_meta_data new) ''role'') of
          Inl e \<Rightarrow> Inl e
        | Inr r \<Rightarrow>
            insert_profile
              \<lparr>updated_at = Some now, p_id = gen, p_user_id = u_id new,
               name = coalesce (json_get_text (raw_user_meta_data new) ''name'') [],
               phone = Some (coalesce (json_get_text (raw_user_meta_data new) ''phone'') []),
               role = coalesce r Customer, p_created_at = Some now\<rparr> d)"

text \<open>
  The creation of an identity: the row goes into \<open>auth.users\<close> and the \<open>AFTER INSERT\<close>
  trigger \<open>on_auth_user_created\<close> runs \<open>handle_new_user\<close> in the same transaction, so an
  error of the trigger function undoes the insert.
\<close>

definition create_identity :: "timestamptz \<Rightarrow> uuid \<Rightarrow> auth_user \<Rightarrow> db \<Rightarrow> sql_error + db" where
  "create_identity now gen new d =
     (if u_id new \<in> set (map u_id (users d)) then Inl Unique_violation
      else handle_new_user now gen new (d\<lparr>users := users d @ [new]\<rparr>))"

definition user_profiles :: "uuid \<Rightarrow> db \<Rightarrow> profile list" where
  "user_profiles uid d = filter (\<lambda>p. p_user_id p = uid) (profiles d)"

section \<open>Example databases\<close>

text \<open>
  Rows as the client's inserts and the column defaults write them, and the state of the
  scenario: a shop with an average duration of 30 and three waiting bookings that joined
  in the order 10, 11, 12 (stored in another order), beside a completed booking of the
  shop and a waiting booking of another shop. The query of the loop has one answer on
  it, \<open>scenario_rows\<close>.
\<close>

definition new_booking :: "uuid \<Rightarrow> uuid \<Rightarrow> uuid \<Rightarrow> booking_status \<Rightarrow> timestamptz \<Rightarrow> booking" where
  "new_booking i u s st t =
     \<lparr>updated_at = Some t, b_id = i, b_user_id = u, b_shop_id = s, service_name = ''Haircut'',
      service_price = Some 25, status = Some st, queue_position = None,
      estimated_wait_time = None, joined_at = Some t, started_at = None, completed_at = None,
      b_created_at = Some t\<rparr>"

definition new_shop :: "uuid \<Rightarrow> uuid \<Rightarrow> int option \<Rightarrow> barber_shop" where
  "new_shop i u dur =
     \<lparr>updated_at = Some 0, s_id = i, s_user_id = u, shop_name = ''Shop'', shop_address = ''Street'',
      latitude = None, longitude = None, services = Some ''[]'', working_hours = Some ''{}'',
      cover_image_url = None, rating_avg = Some 0, total_reviews = Some 0,
      total_bookings = Some 0, max_queue_limit = Some 10, avg_service_duration = dur,
      is_active = Some True, s_created_at = Some 0\<rparr>"

definition scenario_db :: db where
  "scenario_db =
     \<lparr>users = [], profiles = [],
      barber_shops = [new_shop 1 7 (Some 30), new_shop 2 8 (Some 20)],
      bookings = [new_booking 12 5 1 Waiting 300, new_booking 13 6 1 Completed 50,
                  new_booking 10 3 1 Waiting 100, new_booking 14 3 2 Waiting 10,
                  new_booking 11 4 1 Waiting 200],
      reviews = [], enum_types = migration_enum_types\<rparr>"

definition scenario_rows :: "booking list" where
  "scenario_rows =
     [new_booking 10 3 1 Waiting 100, new_booking 11 4 1 Waiting 200,
      new_booking 12 5 1 Waiting 300]"






text \<open>
  Two waiting bookings of shop 1 that joined at the same time, before any call and
  after a call whose query returned them in the order 10, 11.
\<close>

definition tie_db :: db where
  "tie_db =
     scenario_db\<lparr>bookings := [new_booking 10 3 1 Waiting 100, new_booking 11 4 1 Waiting 100]\<rparr>"

definition tie_db_once :: db where
  "tie_db_once =
     scenario_db\<lparr>bookings :=
       [(new_booking 10 3 1 Waiting 100)
          \<lparr>updated_at := Some 1000, queue_position := Some 1, estimated_wait_time := Some 0\<rparr>,
        (new_booking 11 4 1 Waiting 100)
          \<lparr>updated_at := Some 1000, queue_position := Some 2, estimated_wait_time := Some 30\<rparr>]\<rparr>"

text \<open>
  Two shops, their owners and three customers, shop 2 with one review; the same after
  customer 3 has reviewed shop 1 with 5; and after customer 4 has added a review with 4.
\<close>

definition new_review :: "uuid \<Rightarrow> uuid \<Rightarrow> uuid \<Rightarrow> int \<Rightarrow> review" where
  "new_review i u s x =
     \<lparr>r_id = i, r_user_id = u, r_shop_id = s, booking_id = None, rating = x,
      review_text = None, tags = None, r_created_at = Some 0\<rparr>"

definition review_base_db :: db where
  "review_base_db =
     \<lparr>users = [\<lparr>u_id = 3, raw_user_meta_data = None\<rparr>, \<lparr>u_id = 4, raw_user_meta_data = None\<rparr>,
               \<lparr>u_id = 5, raw_user_meta_data = None\<rparr>, \<lparr>u_id = 7, raw_user_meta_data = None\<rparr>,
               \<lparr>u_id = 8, raw_user_meta_data = None\<rparr>],
      profiles = [],
      barber_shops = [new_shop 1 7 (Some 30),
                      (new_shop 2 8 (Some 20))
                         \<lparr>updated_at := Some 400, rating_avg := Some 1, total_reviews := Some 1\<rparr>],
      bookings = [], reviews = [new_review 200 4 2 1],
      enum_types = migration_enum_types\<rparr>"

definition one_review_db :: db where
  "one_review_db =
     review_base_db
       \<lparr>barber_shops := [(new_shop 1 7 (Some 30))
                           \<lparr>updated_at := Some 500, rating_avg := Some 5, total_reviews := Some 1\<rparr>,
                         (new_shop 2 8 (Some 20))
                           \<lparr>updated_at := Some 400, rating_avg := Some 1, total_reviews := Some 1\<rparr>],
        reviews := [new_review 200 4 2 1, new_review 100 3 1 5]\<rparr>"

definition two_reviews_db :: db where
  "two_reviews_db =
     review_base_db
       \<lparr>barber_shops := [(new_shop 1 7 (Some 30))
                           \<lparr>updated_at := Some 600, rating_avg := Some (9 / 2), total_reviews := Some 2\<rparr>,
                         (new_shop 2 8 (Some 20))
                           \<lparr>updated_at := Some 400, rating_avg := Some 1, total_reviews := Some 1\<rparr>],
        reviews := [new_review 200 4 2 1, new_review 100 3 1 5, new_review 101 4 1 4]\<rparr>"

text \<open>
  Shop 1 reviewed with 3 by customer 3 and with 4 by customer 4, whose insert has just
  been committed; and the same after the insert of a review with 3 by customer 5.
\<close>

definition overlap_db :: db where
  "overlap_db =
     review_base_db
       \<lparr>barber_shops := [(new_shop 1 7 (Some 30))
                           \<lparr>updated_at := Some 650, rating_avg := Some (7 / 2), total_reviews := Some 2\<rparr>,
                         (new_shop 2 8 (Some 20))
                           \<lparr>updated_at := Some 400, rating_avg := Some 1, total_reviews := Some 1\<rparr>],
        reviews := [new_review 200 4 2 1, new_review 100 3 1 3, new_review 101 4 1 4]\<rparr>"

definition overlap_db_after :: db where
  "overlap_db_after =
     review_base_db
       \<lparr>barber_shops := [(new_shop 1 7 (Some 30))
                           \<lparr>updated_at := Some 640, rating_avg := Some 3, total_reviews := Some 2\<rparr>,
                         (new_shop 2 8 (Some 20))
                           \<lparr>updated_at := Some 400, rating_avg := Some 1, total_reviews := Some 1\<rparr>],
        reviews := [new_review 200 4 2 1, new_review 100 3 1 3, new_review 101 4 1 4,
                    new_review 102 5 1 3]\<rparr>"

text \<open>
  The database right after the migrations, three signups (without a role, with the role
  \<open>barber\<close>, with a role that is no label of the enum), and a database in which the
  first identity and its profile exist.
\<close>

definition migrated_db :: db where
  "migrated_db =
     \<lparr>users = [], profiles = [], barber_shops = [], bookings = [], reviews = [],
      enum_types = migration_enum_types\<rparr>"

definition ann :: auth_user where
  "ann = \<lparr>u_id = 1, raw_user_meta_data = Some [(''name'', JString ''Ann''), (''phone'', JString ''555'')]\<rparr>"

definition bob :: auth_user where
  "bob = \<lparr>u_id = 2, raw_user_meta_data = Some [(''name'', JString ''Bob''), (''role'', JString ''barber'')]\<rparr>"

definition eve :: auth_user where
  "eve = \<lparr>u_id = 3, raw_user_meta_data = Some [(''role'', JString ''owner'')]\<rparr>"

definition ann_profile :: profile where
  "ann_profile =
     \<lparr>updated_at = Some 900, p_id = 40, p_user_id = 1, name = ''Ann'', phone = Some ''555'',
      role = Customer, p_created_at = Some 900\<rparr>"

definition ann_db :: db where
  "ann_db = migrated_db\<lparr>users := [ann], profiles := [ann_profile]\<rparr>"

text \<open>
  A database whose catalog holds a type \<open>user_role\<close> in a schema that is searched under
  every path, so that the cast of \<open>handle_new_user\<close> resolves; it serves to run the rest
  of the function.
\<close>

definition resolving :: "db \<Rightarrow> db" where
  "resolving d = d\<lparr>enum_types := (''pg_catalog'', ''user_role'') # enum_types d\<rparr>"

section \<open>The queue recompute procedure: what the loop computes\<close>

lemmas uqp_defs = scenario_db_def scenario_rows_def new_booking_def new_shop_def
  update_queue_positions_def rpc_update_queue_positions_def bookings_pkey_def loop_query_def
  queue_by_position_def is_waiting_def joined_key_def select_avg_duration_def sql_update_def
  update_updated_at_column_def int4_def int4_mul_def int4_opt_def sql_mul_def Let_def
  waits_in_range_def migration_enum_types_def

lemma assign_notin: "b_id b \<notin> set ids \<Longrightarrow> assign now a ids pc b = b"
  by (induction ids arbitrary: pc) auto

lemma assign_keeps:
  "b_id (assign now a ids pc b) = b_id b"
  "b_shop_id (assign now a ids pc b) = b_shop_id b"
  "status (assign now a ids pc b) = status b"
  "joined_at (assign now a ids pc b) = joined_at b"
  by (induction ids arbitrary: pc) auto

lemma int4_Inr: "int4 x = Inr y \<Longrightarrow> y = x"
  by (auto simp: int4_def split: if_splits)


lemma int4_mul_Inr: "int4_mul a b = Inr w \<Longrightarrow> w = sql_mul a b"
  by (auto simp: int4_mul_def int4_opt_def dest: int4_Inr split: option.splits sum.splits)


lemma queue_loop_assign:
  "distinct ids \<Longrightarrow> queue_loop now a ids pc bs = Inr bs' \<Longrightarrow> bs' = map (assign now a ids pc) bs"
proof (induction ids arbitrary: pc bs)
  case Nil
  then show ?case by simp
next
  case (Cons i ids)
  from Cons.prems(2) obtain p1 w nx where
    p1: "int4 (pc - 1) = Inr p1" and w: "int4_mul (Some p1) a = Inr w"
    and nx: "int4 (pc + 1) = Inr nx"
    and rest: "queue_loop now a ids nx
                 (sql_update now (\<lambda>b. b_id b = i)
                    (\<lambda>b. b\<lparr>queue_position := Some pc, estimated_wait_time := w\<rparr>) bs) = Inr bs'"
    by (auto simp: Let_def split: sum.splits)
  have e1: "p1 = pc - 1" "nx = pc + 1" "w = sql_mul (Some (pc - 1)) a"
    using p1 nx w by (auto dest: int4_Inr int4_mul_Inr)
  from Cons.prems(1) have d: "distinct ids" "i \<notin> set ids" by auto
  have "bs' = map (assign now a ids nx)
                 (sql_update now (\<lambda>b. b_id b = i)
                    (\<lambda>b. b\<lparr>queue_position := Some pc, estimated_wait_time := w\<rparr>) bs)"
    by (rule Cons.IH [OF d(1) rest])
  also have "\<dots> = map (assign now a (i # ids) pc) bs"
    using d(2) by (auto simp: sql_update_def update_updated_at_column_def e1 assign_notin)
  finally show ?case .
qed


text \<open>The loop returns normally exactly when the counter and the waits stay in range.\<close>

lemma queue_loop_succeeds:
  "1 \<le> pc \<Longrightarrow> pc + int (length ids) \<le> 2147483647 \<Longrightarrow>
   (\<forall>v. a = Some v \<longrightarrow> (\<forall>k < length ids. - 2147483648 \<le> (pc + int k - 1) * v \<and> (pc + int k - 1) * v \<le> 2147483647)) \<Longrightarrow>
   \<exists>bs'. queue_loop now a ids pc bs = Inr bs'"
proof (induction ids arbitrary: pc bs)
  case Nil
  then show ?case by simp
next
  case (Cons i ids)
  have p1: "int4 (pc - 1) = Inr (pc - 1)" and nx: "int4 (pc + 1) = Inr (pc + 1)"
    using Cons.prems(1,2) by (auto simp: int4_def)
  have w: "int4_mul (Some (pc - 1)) a = Inr (sql_mul (Some (pc - 1)) a)"
  proof (cases a)
    case None
    then show ?thesis by (simp add: int4_mul_def int4_opt_def sql_mul_def)
  next
    case (Some v)
    with Cons.prems(3) have "- 2147483648 \<le> (pc + int 0 - 1) * v \<and> (pc + int 0 - 1) * v \<le> 2147483647"
      by (metis length_greater_0_conv list.distinct(1))
    with Some show ?thesis by (simp add: int4_mul_def int4_opt_def sql_mul_def int4_def)
  qed
  have "\<forall>v. a = Some v \<longrightarrow> (\<forall>k < length ids. - 2147483648 \<le> (pc + 1 + int k - 1) * v \<and> (pc + 1 + int k - 1) * v \<le> 2147483647)"
  proof (intro allI impI)
    fix v k assume "a = Some v" "k < length ids"
    with Cons.prems(3) have "- 2147483648 \<le> (pc + int (Suc k) - 1) * v \<and> (pc + int (Suc k) - 1) * v \<le> 2147483647"
      by (metis Suc_less_eq length_Cons)
    then show "- 2147483648 \<le> (pc + 1 + int k - 1) * v \<and> (pc + 1 + int k - 1) * v \<le> 2147483647"
      by (simp add: algebra_simps)
  qed
  moreover have "1 \<le> pc + 1" "pc + 1 + int (length ids) \<le> 2147483647"
    using Cons.prems(1,2) by auto
  ultimately obtain bs' where "queue_loop now a ids (pc + 1)
      (sql_update now (\<lambda>b. b_id b = i)
         (\<lambda>b. b\<lparr>queue_position := Some pc, estimated_wait_time := sql_mul (Some (pc - 1)) a\<rparr>) bs) = Inr bs'"
    using Cons.IH by blast
  then show ?case by (simp add: p1 nx w Let_def)
qed

lemma queue_loop_Inr_range:
  "queue_loop now a ids pc bs = Inr bs' \<Longrightarrow> pc \<le> 2147483647 \<Longrightarrow>
   pc + int (length ids) \<le> 2147483647 \<and>
   (\<forall>v. a = Some v \<longrightarrow> (\<forall>k < length ids. - 2147483648 \<le> (pc + int k - 1) * v \<and> (pc + int k - 1) * v \<le> 2147483647))"
proof (induction ids arbitrary: pc bs)
  case Nil
  then show ?case by simp
next
  case (Cons i ids)
  from Cons.prems(1) obtain p1 w nx where
    p1: "int4 (pc - 1) = Inr p1" and w: "int4_mul (Some p1) a = Inr w"
    and nx: "int4 (pc + 1) = Inr nx"
    and rest: "queue_loop now a ids nx
                 (sql_update now (\<lambda>b. b_id b = i)
                    (\<lambda>b. b\<lparr>queue_position := Some pc, estimated_wait_time := w\<rparr>) bs) = Inr bs'"
    by (auto simp: Let_def split: sum.splits)
  have e1: "p1 = pc - 1" "nx = pc + 1" using p1 nx by (auto dest: int4_Inr)
  have nxr: "pc + 1 \<le> 2147483647" using nx by (auto simp: int4_def split: if_splits)
  have w0: "- 2147483648 \<le> (pc - 1) * v \<and> (pc - 1) * v \<le> 2147483647" if "a = Some v" for v
    using w that unfolding e1
    by (auto simp: int4_mul_def int4_opt_def sql_mul_def int4_def split: if_splits sum.splits)
  note ih = Cons.IH [OF rest [unfolded e1] nxr]
  have "- 2147483648 \<le> (pc + int k - 1) * v \<and> (pc + int k - 1) * v \<le> 2147483647"
    if "a = Some v" "k < length (i # ids)" for v k
  proof (cases k)
    case 0
    with w0 [OF that(1)] show ?thesis by simp
  next
    case (Suc j)
    with that(2) have "j < length ids" by simp
    with ih that(1) have "- 2147483648 \<le> (pc + 1 + int j - 1) * v \<and> (pc + 1 + int j - 1) * v \<le> 2147483647"
      by blast
    with Suc show ?thesis by (simp add: algebra_simps)
  qed
  moreover have "pc + int (length (i # ids)) \<le> 2147483647" using ih by simp
  ultimately show ?case by blast
qed

lemma waits_in_range_iff:
  "waits_in_range a n \<longleftrightarrow>
   (\<forall>v. a = Some v \<longrightarrow> (\<forall>k < n. - 2147483648 \<le> (1 + int k - 1) * v \<and> (1 + int k - 1) * v \<le> 2147483647))"
  by (cases a) (auto simp: waits_in_range_def list_all_iff)

lemma update_queue_positions_returns:
  "(\<exists>d'. update_queue_positions now rows S d = Inr d') \<longleftrightarrow>
   length rows < 2147483647 \<and> waits_in_range (select_avg_duration S d) (length rows)"
proof
  assume "\<exists>d'. update_queue_positions now rows S d = Inr d'"
  then obtain bs where "queue_loop now (select_avg_duration S d) (map b_id rows) 1 (bookings d) = Inr bs"
    by (auto simp: update_queue_positions_def Let_def split: sum.splits)
  from queue_loop_Inr_range [OF this] show
    "length rows < 2147483647 \<and> waits_in_range (select_avg_duration S d) (length rows)"
    unfolding waits_in_range_iff by simp
next
  assume a: "length rows < 2147483647 \<and> waits_in_range (select_avg_duration S d) (length rows)"
  have "\<exists>bs'. queue_loop now (select_avg_duration S d) (map b_id rows) 1 (bookings d) = Inr bs'"
    using a unfolding waits_in_range_iff by (intro queue_loop_succeeds) auto
  then show "\<exists>d'. update_queue_positions now rows S d = Inr d'"
    by (auto simp: update_queue_positions_def Let_def)
qed


lemma filter_map_keep:
  "(\<And>x. P (g x) = P x) \<Longrightarrow> filter P (map g xs) = map g (filter P xs)"
  by (induction xs) auto

lemma joined_key_assign: "joined_key (assign now a ids pc b) = joined_key b"
  by (simp add: joined_key_def assign_keeps)

lemma is_waiting_assign: "is_waiting S (assign now a ids pc b) = is_waiting S b"
  by (simp add: is_waiting_def assign_keeps)




lemma select_avg_duration_bookings [simp]:
  "select_avg_duration S (d\<lparr>bookings := bs\<rparr>) = select_avg_duration S d"
  by (simp add: select_avg_duration_def)

text \<open>An answer of the loop's query names each waiting booking of the shop once.\<close>

lemma loop_query_ids:
  assumes "bookings_pkey d" and "loop_query S d rows"
  shows "distinct (map b_id rows)" and "set rows = set (filter (is_waiting S) (bookings d))"
    and "length rows = length (filter (is_waiting S) (bookings d))"
proof -
  from assms(2) have m: "mset rows = mset (filter (is_waiting S) (bookings d))"
    by (simp add: loop_query_def del: mset_filter)
  then have "mset (map b_id rows) = mset (map b_id (filter (is_waiting S) (bookings d)))"
    by (simp del: mset_filter)
  from mset_eq_imp_distinct_iff [OF this]
  have "distinct (map b_id rows) = distinct (map b_id (filter (is_waiting S) (bookings d)))" .
  moreover have "distinct (map b_id (filter (is_waiting S) (bookings d)))"
    using assms(1) by (simp add: bookings_pkey_def distinct_map_filter)
  ultimately show "distinct (map b_id rows)" by blast
  from m show "set rows = set (filter (is_waiting S) (bookings d))" by (rule mset_eq_setD)
  from m show "length rows = length (filter (is_waiting S) (bookings d))" by (rule mset_eq_length)
qed

text \<open>Every database has an answer: for one, take ties in the order of the table.\<close>

lemma loop_query_exists:
  "loop_query S d (sort_key joined_key (filter (is_waiting S) (bookings d)))"
  by (simp add: loop_query_def del: mset_filter)

lemma update_queue_positions_result:
  assumes "bookings_pkey d" and "loop_query S d rows"
    and "update_queue_positions now rows S d = Inr d'"
  shows "d' = d\<lparr>bookings := map (assign now (select_avg_duration S d) (map b_id rows) 1) (bookings d)\<rparr>"
proof -
  from assms(3) obtain bs where
    l: "queue_loop now (select_avg_duration S d) (map b_id rows) 1 (bookings d) = Inr bs"
    and d': "d' = d\<lparr>bookings := bs\<rparr>"
    by (auto simp: update_queue_positions_def Let_def split: sum.splits)
  from queue_loop_assign [OF loop_query_ids(1) [OF assms(1,2)] l] d' show ?thesis by simp
qed











lemma list_all2_map_self: "list_all2 P xs (map f xs) = list_all (\<lambda>x. P x (f x)) xs"
  by (induction xs) auto

lemma list_all2_refl_if: "(\<And>x. P x x) \<Longrightarrow> list_all2 P xs xs"
  by (induction xs) auto







lemma assign_assign:
  "assign n2 a ids pc (assign n1 a ids pc b) = assign n2 a ids pc b"
  by (induction ids arbitrary: pc) (auto simp: assign_keeps)

lemma same_but_updated_at_assign:
  "same_but_updated_at (assign n1 a ids pc b) (assign n2 a ids pc b)"
  by (induction ids arbitrary: pc) (auto simp: same_but_updated_at_def)

lemma joined_key_inj: "joined_key b = joined_key b' \<Longrightarrow> joined_at b = joined_at b'"
  by (auto simp: joined_key_def split: option.splits)

text \<open>
  When no two waiting bookings of the shop share \<open>joined_at\<close>, the query has one answer
  only.
\<close>

lemma loop_query_unique:
  assumes "distinct (map joined_at (filter (is_waiting S) (bookings d)))"
    and "loop_query S d rows" and "loop_query S d rows'"
  shows "rows' = rows"
proof -
  let ?ws = "filter (is_waiting S) (bookings d)"
  from assms(1) have "inj_on joined_at (set ?ws)" by (simp add: distinct_map)
  then have inj: "inj_on joined_key (set ?ws)"
    by (auto simp: inj_on_def dest!: joined_key_inj)
  from assms(2) have "sort_key joined_key ?ws = rows"
    by (intro sort_key_inj_key_eq [OF _ inj]) (simp_all add: loop_query_def del: mset_filter)
  moreover from assms(3) have "sort_key joined_key ?ws = rows'"
    by (intro sort_key_inj_key_eq [OF _ inj]) (simp_all add: loop_query_def del: mset_filter)
  ultimately show ?thesis by simp
qed

lemma loop_query_after:
  assumes pk: "bookings_pkey d" and q: "loop_query S d rows"
    and r: "update_queue_positions now rows S d = Inr d'"
  shows "loop_query S d' (map (assign now (select_avg_duration S d) (map b_id rows) 1) rows)"
    and "bookings_pkey d'"
    and "map joined_at (filter (is_waiting S) (bookings d')) =
         map joined_at (filter (is_waiting S) (bookings d))"
proof -
  let ?g = "assign now (select_avg_duration S d) (map b_id rows) 1"
  note d' = update_queue_positions_result [OF pk q r]
  have w': "filter (is_waiting S) (bookings d') = map ?g (filter (is_waiting S) (bookings d))"
    unfolding d' by (simp add: filter_map_keep is_waiting_assign)
  from q have "mset rows = mset (filter (is_waiting S) (bookings d))"
    by (simp add: loop_query_def del: mset_filter)
  then have m: "mset (map ?g rows) = mset (map ?g (filter (is_waiting S) (bookings d)))"
    by (simp del: mset_filter)
  have "map joined_key (map ?g rows) = map joined_key rows"
    by (simp add: joined_key_assign comp_def)
  moreover from q have "sorted (map joined_key rows)" by (simp add: loop_query_def)
  ultimately have "sorted (map joined_key (map ?g rows))" by (simp only:)
  with m show "loop_query S d' (map ?g rows)"
    unfolding loop_query_def w' by blast
  show "bookings_pkey d'"
    using pk unfolding d' bookings_pkey_def by (simp add: assign_keeps comp_def)
  show "map joined_at (filter (is_waiting S) (bookings d')) =
         map joined_at (filter (is_waiting S) (bookings d))"
    unfolding w' by (simp add: assign_keeps comp_def)
qed

lemma update_queue_positions_twice:
  assumes pk: "bookings_pkey d"
    and ties: "distinct (map joined_at (filter (is_waiting S) (bookings d)))"
    and q: "loop_query S d rows"
    and one: "update_queue_positions n1 rows S d = Inr d1"
    and q2: "loop_query S d1 rows2"
  shows "update_queue_positions n2 rows2 S d1 =
         Inr (d\<lparr>bookings := map (assign n2 (select_avg_duration S d) (map b_id rows) 1) (bookings d)\<rparr>)"
proof -
  let ?a = "select_avg_duration S d" and ?ids = "map b_id rows"
  note d1 = update_queue_positions_result [OF pk q one]
  note after = loop_query_after [OF pk q one]
  have "rows2 = map (assign n1 ?a ?ids 1) rows"
    using loop_query_unique [OF _ after(1) q2] ties by (simp only: after(3))
  then have ids1: "map b_id rows2 = ?ids" by (simp add: assign_keeps comp_def)
  then have len: "length rows2 = length rows" by (metis length_map)
  have a1: "select_avg_duration S d1 = ?a" unfolding d1 by simp
  from one update_queue_positions_returns [of n1 rows S d]
  have "length rows < 2147483647 \<and> waits_in_range ?a (length rows)" by blast
  with update_queue_positions_returns [of n2 rows2 S d1]
  obtain d2 where two: "update_queue_positions n2 rows2 S d1 = Inr d2"
    unfolding len a1 by blast
  have "d2 = d1\<lparr>bookings := map (assign n2 ?a ?ids 1) (bookings d1)\<rparr>"
    using update_queue_positions_result [OF after(2) q2 two] by (simp only: ids1 a1)
  also have "\<dots> = d\<lparr>bookings := map (assign n2 ?a ?ids 1) (bookings d)\<rparr>"
    unfolding d1 by (simp add: assign_assign comp_def)
  finally show ?thesis using two by simp
qed

text \<open>
  Claim C3, as amended. Let the primary key of \<open>bookings\<close> hold and no two waiting
  bookings of the shop share \<open>joined_at\<close>. Then a second call of the recompute for the
  shop right after the first, whichever answers the query gives to the two calls,
  changes no \<open>queue_position\<close> and no \<open>estimated_wait_time\<close>: the rows after the second
  call are the rows after the first up to \<open>updated_at\<close>, which the trigger sets to the
  time of the second call, and when both calls see the same \<open>now()\<close> the database after
  the second call is the database after the first.
\<close>

theorem update_queue_positions_idempotent:
  assumes "bookings_pkey d"
    and "distinct (map joined_at (filter (is_waiting shop_uuid) (bookings d)))"
    and "loop_query shop_uuid d rows1"
    and "loop_query shop_uuid (rpc_update_queue_positions n1 rows1 shop_uuid d) rows2"
  shows "let d1 = rpc_update_queue_positions n1 rows1 shop_uuid d;
             d2 = rpc_update_queue_positions n2 rows2 shop_uuid d1
         in d2\<lparr>bookings := bookings d1\<rparr> = d1 \<and>
            list_all2 same_but_updated_at (bookings d1) (bookings d2) \<and>
            map queue_position (bookings d2) = map queue_position (bookings d1) \<and>
            map estimated_wait_time (bookings d2) = map estimated_wait_time (bookings d1) \<and>
            (n2 = n1 \<longrightarrow> d2 = d1)"
proof (cases "update_queue_positions n1 rows1 shop_uuid d")
  case (Inl e)
  then have r1: "rpc_update_queue_positions n1 rows1 shop_uuid d = d"
    by (simp add: rpc_update_queue_positions_def)
  from assms(4) have q2: "loop_query shop_uuid d rows2" by (simp only: r1)
  have "length rows2 = length rows1"
    using loop_query_ids(3) [OF assms(1) q2] loop_query_ids(3) [OF assms(1,3)] by simp
  with Inl update_queue_positions_returns [of n1 rows1 shop_uuid d]
    update_queue_positions_returns [of n2 rows2 shop_uuid d]
  have "\<not> (\<exists>d'. update_queue_positions n2 rows2 shop_uuid d = Inr d')" by auto
  then have r2: "rpc_update_queue_positions n2 rows2 shop_uuid d = d"
    by (cases "update_queue_positions n2 rows2 shop_uuid d")
       (auto simp: rpc_update_queue_positions_def)
  have "list_all2 same_but_updated_at (bookings d) (bookings d)"
    by (rule list_all2_refl_if) (simp add: same_but_updated_at_def)
  then show ?thesis unfolding Let_def r1 r2 by simp
next
  case (Inr d1)
  let ?a = "select_avg_duration shop_uuid d" and ?ids = "map b_id rows1"
  have r1: "rpc_update_queue_positions n1 rows1 shop_uuid d = d1"
    using Inr by (simp add: rpc_update_queue_positions_def)
  have e1: "d1 = d\<lparr>bookings := map (assign n1 ?a ?ids 1) (bookings d)\<rparr>"
    by (rule update_queue_positions_result [OF assms(1,3) Inr])
  from assms(4) have q2: "loop_query shop_uuid d1 rows2" by (simp only: r1)
  have r2: "rpc_update_queue_positions n2 rows2 shop_uuid d1
            = d\<lparr>bookings := map (assign n2 ?a ?ids 1) (bookings d)\<rparr>"
    using update_queue_positions_twice [OF assms(1,2,3) Inr q2, of n2]
    by (simp add: rpc_update_queue_positions_def)
  have sb: "list_all2 same_but_updated_at (map (assign n1 ?a ?ids 1) (bookings d))
              (map (assign n2 ?a ?ids 1) (bookings d))"
    by (simp add: list_all2_map1 list_all2_map2 same_but_updated_at_assign list_all2_refl_if)
  have qq: "queue_position (assign n2 a ids pc b) = queue_position (assign n1 a ids pc b)"
          "estimated_wait_time (assign n2 a ids pc b) = estimated_wait_time (assign n1 a ids pc b)"
    for a ids pc b
    by (induction ids arbitrary: pc) auto
  show ?thesis
    unfolding Let_def r1 r2 unfolding e1 using sb by (simp add: qq)
qed

text \<open>
  In the scenario a second call at the same time changes nothing, and a second call at
  a later time leaves positions and waits as the first call wrote them.
\<close>

theorem update_queue_positions_idempotent_scenario:
  "bookings_pkey scenario_db \<and>
   distinct (map joined_at (filter (is_waiting 1) (bookings scenario_db))) \<and>
   loop_query 1 scenario_db scenario_rows \<and>
   loop_query 1 (rpc_update_queue_positions 1000 scenario_rows 1 scenario_db)
     (queue_by_position 1 (rpc_update_queue_positions 1000 scenario_rows 1 scenario_db)) \<and>
   rpc_update_queue_positions 1000
       (queue_by_position 1 (rpc_update_queue_positions 1000 scenario_rows 1 scenario_db)) 1
       (rpc_update_queue_positions 1000 scenario_rows 1 scenario_db) =
     rpc_update_queue_positions 1000 scenario_rows 1 scenario_db \<and>
   map (\<lambda>b. (b_id b, queue_position b, estimated_wait_time b))
     (bookings (rpc_update_queue_positions 2000
        (queue_by_position 1 (rpc_update_queue_positions 1000 scenario_rows 1 scenario_db)) 1
        (rpc_update_queue_positions 1000 scenario_rows 1 scenario_db))) =
   [(12, Some 3, Some 60), (13, None, None), (10, Some 1, Some 0), (14, None, None),
    (11, Some 2, Some 30)]"
  using update_queue_positions_idempotent [of scenario_db 1 scenario_rows 1000
      "queue_by_position 1 (rpc_update_queue_positions 1000 scenario_rows 1 scenario_db)" 1000]
  by (simp add: uqp_defs)

text \<open>
  Claim C3 as stated fails: bookings 10 and 11 joined at the same time. The query of the
  first call returns them in the order 10, 11; the query of the second call, on the
  rewritten rows, returns them in the order 11, 10, which is ascending in \<open>joined_at\<close>
  as well; the second call swaps their positions and waits.
\<close>

theorem update_queue_positions_ties_counterexample:
  "bookings_pkey tie_db \<and>
   loop_query 1 tie_db (bookings tie_db) \<and>
   update_queue_positions 1000 (bookings tie_db) 1 tie_db = Inr tie_db_once \<and>
   map (\<lambda>b. (b_id b, joined_at b, queue_position b, estimated_wait_time b)) (bookings tie_db_once) =
     [(10, Some 100, Some 1, Some 0), (11, Some 100, Some 2, Some 30)] \<and>
   loop_query 1 tie_db_once (rev (bookings tie_db_once)) \<and>
   map (\<lambda>b. (b_id b, joined_at b, queue_position b, estimated_wait_time b))
     (bookings (rpc_update_queue_positions 2000 (rev (bookings tie_db_once)) 1 tie_db_once)) =
     [(10, Some 100, Some 2, Some 30), (11, Some 100, Some 1, Some 0)]"
  by (simp add: uqp_defs tie_db_def tie_db_once_def)

section \<open>The timestamp touch trigger: the stamps of successive updates\<close>

lemma successive_updates_updated_at:
  "map updated_at (successive_updates us r) = map (\<lambda>u. Some (fst u)) us"
  by (induction us r rule: successive_updates.induct)
     (simp_all add: Let_def update_updated_at_column_def)

lemma sorted_map_Some: "sorted (map Some xs) = sorted (xs :: int list)"
  by (induction xs) auto

lemma strict_sorted_map_Some: "sorted_wrt (<) (map Some xs) = sorted_wrt (<) (xs :: int list)"
  by (induction xs) auto

lemma starts_sorted:
  "list_all (\<lambda>u. fst u \<le> fst (snd u)) us \<Longrightarrow> not_overlapping us \<Longrightarrow> sorted (map fst us)"
proof (induction us rule: not_overlapping.induct)
  case (1 u v us)
  then have "fst u \<le> fst v" and "sorted (map fst (v # us))" by auto
  then show ?case by (simp only: list.map sorted2)
qed simp_all

lemma starts_strictly_sorted:
  "list_all (\<lambda>u. fst u \<le> fst (snd u)) us \<Longrightarrow> apart us \<Longrightarrow> sorted_wrt (<) (map fst us)"
proof (induction us rule: apart.induct)
  case (1 u v us)
  then have "fst u < fst v" and "sorted_wrt (<) (map fst (v # us))" by auto
  then show ?case by (simp only: list.map) fastforce
qed simp_all

text \<open>
  Claim C4, as amended. The trigger function sets \<open>updated_at\<close> to \<open>now()\<close> whatever the
  caller assigned. So over a row's successive updates the values of \<open>updated_at\<close> are the
  start times of the updating transactions, one for one: they never decrease when the
  transactions do not overlap, and increase strictly when the transactions are apart.
  The row type is any of the three tables that carry the trigger.
\<close>

theorem update_updated_at_column_monotone:
  "updated_at (update_updated_at_column now (st r)) = Some now \<and>
   map updated_at (successive_updates us r) = map (\<lambda>u. Some (fst u)) us \<and>
   (in_time_order us \<and> not_overlapping us \<longrightarrow>
      sorted (map updated_at (successive_updates us r))) \<and>
   (in_time_order us \<and> apart us \<longrightarrow>
      sorted_wrt (<) (map updated_at (successive_updates us r)))"
proof -
  have m: "map updated_at (successive_updates us r) = map Some (map fst us)"
    by (simp add: successive_updates_updated_at comp_def)
  have "updated_at (update_updated_at_column now (st r)) = Some now"
    by (simp add: update_updated_at_column_def)
  moreover have "in_time_order us \<and> not_overlapping us \<longrightarrow>
                 sorted (map updated_at (successive_updates us r))"
    unfolding m in_time_order_def
    using sorted_map_Some [of "map fst us"] starts_sorted [of us] by blast
  moreover have "in_time_order us \<and> apart us \<longrightarrow>
                 sorted_wrt (<) (map updated_at (successive_updates us r))"
    unfolding m in_time_order_def
    using strict_sorted_map_Some [of "map fst us"] starts_strictly_sorted [of us] by blast
  ultimately show ?thesis using successive_updates_updated_at [of us r] by blast
qed

text \<open>
  Three updates of a booking by transactions that do not overlap, each assigning a
  value of its own to \<open>updated_at\<close>; and two updates by transactions that are apart.
\<close>

theorem update_updated_at_column_monotone_bookings:
  "in_time_order
     [(100 :: int, 110 :: int, \<lambda>b. b\<lparr>status := Some In_progress, updated_at := Some 999\<rparr>),
      (110, 110, \<lambda>b. b\<lparr>updated_at := None\<rparr>),
      (250, 260, \<lambda>b. b\<lparr>status := Some Completed, updated_at := Some 7\<rparr>)] \<and>
   not_overlapping
     [(100 :: int, 110 :: int, \<lambda>b. b\<lparr>status := Some In_progress, updated_at := Some 999\<rparr>),
      (110, 110, \<lambda>b. b\<lparr>updated_at := None\<rparr>),
      (250, 260, \<lambda>b. b\<lparr>status := Some Completed, updated_at := Some 7\<rparr>)] \<and>
   map updated_at
     (successive_updates
        [(100, 110, \<lambda>b. b\<lparr>status := Some In_progress, updated_at := Some 999\<rparr>),
         (110, 110, \<lambda>b. b\<lparr>updated_at := None\<rparr>),
         (250, 260, \<lambda>b. b\<lparr>status := Some Completed, updated_at := Some 7\<rparr>)]
        (new_booking 10 3 1 Waiting 50)) = [Some 100, Some 110, Some 250] \<and>
   sorted [Some 100, Some 110, Some (250 :: int)] \<and>
   apart
     [(100 :: int, 110 :: int, \<lambda>b. b\<lparr>status := Some In_progress\<rparr>),
      (250, 260, \<lambda>b. b\<lparr>status := Some Completed, updated_at := Some 7\<rparr>)] \<and>
   sorted_wrt (<)
     (map updated_at
        (successive_updates
           [(100, 110, \<lambda>b. b\<lparr>status := Some In_progress\<rparr>),
            (250, 260, \<lambda>b. b\<lparr>status := Some Completed, updated_at := Some 7\<rparr>)]
           (new_booking 10 3 1 Waiting 50)))"
  using update_updated_at_column_monotone
    [of 100 "\<lambda>b. b\<lparr>updated_at := None\<rparr>" "new_booking 10 3 1 Waiting 50"
        "[(100, 110, \<lambda>b. b\<lparr>status := Some In_progress, updated_at := Some 999\<rparr>),
          (110, 110, \<lambda>b. b\<lparr>updated_at := None\<rparr>),
          (250, 260, \<lambda>b. b\<lparr>status := Some Completed, updated_at := Some 7\<rparr>)]"]
    update_updated_at_column_monotone
    [of 100 "\<lambda>b. b\<lparr>updated_at := None\<rparr>" "new_booking 10 3 1 Waiting 50"
        "[(100, 110, \<lambda>b. b\<lparr>status := Some In_progress\<rparr>),
          (250, 260, \<lambda>b. b\<lparr>status := Some Completed, updated_at := Some 7\<rparr>)]"]
  by (simp add: Let_def update_updated_at_column_def new_booking_def in_time_order_def)

text \<open>
  Claim C4 as stated fails: a transaction that started at 100 updates the booking at
  300, after a transaction that started at 250 has updated it at 260; the stamp goes
  from 250 back to 100.
\<close>

theorem overlapping_transactions_stamp_backwards:
  "in_time_order
     [(250 :: int, 260 :: int, \<lambda>b. b\<lparr>status := Some In_progress\<rparr>),
      (100, 300, \<lambda>b. b\<lparr>status := Some Completed\<rparr>)] \<and>
   map updated_at
     (successive_updates
        [(250, 260, \<lambda>b. b\<lparr>status := Some In_progress\<rparr>),
         (100, 300, \<lambda>b. b\<lparr>status := Some Completed\<rparr>)]
        (new_booking 10 3 1 Waiting 50)) = [Some 250, Some 100] \<and>
   \<not> sorted [Some 250, Some (100 :: int)]"
  by (simp add: Let_def update_updated_at_column_def new_booking_def in_time_order_def)

section \<open>The rating aggregation trigger: the cache after an insert\<close>

lemma sql_round_nonneg: "0 \<le> x \<Longrightarrow> sql_round x 2 = round2 x"
  by (simp add: sql_round_def round2_def round_def)

lemma round2_nonneg: "0 \<le> x \<Longrightarrow> 0 \<le> round2 x"
  by (simp add: round2_def round_def)

lemma round2_round2: "round2 (round2 x) = round2 x"
  by (simp add: round2_def)

lemma sum_list_ratings_nonneg:
  "list_all (\<lambda>r. 1 \<le> rating r \<and> rating r \<le> 5) rs \<Longrightarrow> 0 \<le> sum_list (map rating rs)"
  by (induction rs) auto

lemma aggregate_value:
  assumes "list_all (\<lambda>r. 1 \<le> rating r \<and> rating r \<le> 5) rs"
    and "decimal_3_2 (map_option (\<lambda>a. sql_round a 2) (sql_avg (map rating rs))) = Inr avg"
  shows "avg = (if rs = [] then None else Some (round2 (mean (map rating rs))))"
proof (cases "rs = []")
  case True
  with assms(2) show ?thesis by (simp add: sql_avg_def decimal_3_2_def)
next
  case False
  have m: "0 \<le> mean (map rating rs)"
    unfolding mean_def
    by (intro divide_nonneg_nonneg) (simp_all add: sum_list_ratings_nonneg [OF assms(1)])
  have "sql_round (sql_round (mean (map rating rs)) 2) 2 = round2 (mean (map rating rs))"
    using m by (simp add: sql_round_nonneg round2_nonneg round2_round2)
  with False assms(2) show ?thesis
    by (auto simp: sql_avg_def decimal_3_2_def mean_def Let_def split: if_splits)
qed

text \<open>The mean and the number of a list of reviews do not depend on their order.\<close>

lemma aggregate_mset:
  assumes "mset rs = mset rs'"
  shows "mean (map rating rs) = mean (map rating rs')" and "length rs = length rs'"
    and "(rs = []) = (rs' = [])"
    and "list_all P rs = list_all P rs'"
proof -
  from assms have "mset (map rating rs) = mset (map rating rs')" by simp
  then have "sum_list (map rating rs) = sum_list (map rating rs')"
    by (metis sum_mset_sum_list)
  moreover from assms show l: "length rs = length rs'" by (rule mset_eq_length)
  ultimately show "mean (map rating rs) = mean (map rating rs')" by (simp add: mean_def)
  from l show "(rs = []) = (rs' = [])" by auto
  from mset_eq_setD [OF assms] show "list_all P rs = list_all P rs'" by (simp add: list_all_iff)
qed

lemma update_shop_rating_result:
  assumes chk: "list_all (\<lambda>r. 1 \<le> rating r \<and> rating r \<le> 5)
                  (filter (\<lambda>r. r_shop_id r = r_shop_id new) visible)"
    and u: "update_shop_rating now new visible d = Inr d'"
  shows "d' = d\<lparr>barber_shops :=
            map (\<lambda>s. if s_id s = r_shop_id new
                      then s\<lparr>updated_at := Some now,
                             rating_avg :=
                               (if filter (\<lambda>r. r_shop_id r = r_shop_id new) visible = [] then None
                                else Some (round2 (mean (map rating
                                       (filter (\<lambda>r. r_shop_id r = r_shop_id new) visible))))),
                             total_reviews :=
                               Some (int (length (filter (\<lambda>r. r_shop_id r = r_shop_id new) visible)))\<rparr>
                      else s) (barber_shops d)\<rparr>"
proof (cases "filter (\<lambda>s. s_id s = r_shop_id new) (barber_shops d) = []")
  case True
  then have "\<forall>s \<in> set (barber_shops d). s_id s \<noteq> r_shop_id new"
    by (simp add: filter_empty_conv)
  then have "map (\<lambda>s. if s_id s = r_shop_id new then f s else s) (barber_shops d) = barber_shops d" for f
    by (simp add: map_idI)
  with True u show ?thesis by (simp add: update_shop_rating_def)
next
  case False
  with u obtain avg cnt where
    a: "decimal_3_2 (map_option (\<lambda>a. sql_round a 2)
          (sql_avg (map rating (filter (\<lambda>r. r_shop_id r = r_shop_id new) visible)))) = Inr avg"
    and c: "int4 (int (length (filter (\<lambda>r. r_shop_id r = r_shop_id new) visible))) = Inr cnt"
    and d': "d' = d\<lparr>barber_shops := sql_update now (\<lambda>s. s_id s = r_shop_id new)
                          (\<lambda>s. s\<lparr>rating_avg := avg, total_reviews := Some cnt\<rparr>) (barber_shops d)\<rparr>"
    by (auto simp: update_shop_rating_def split: sum.splits)
  note av = aggregate_value [OF chk a]
  from c have cn: "cnt = int (length (filter (\<lambda>r. r_shop_id r = r_shop_id new) visible))"
    by (rule int4_Inr)
  show ?thesis unfolding d' av cn
    by (simp add: sql_update_def update_updated_at_column_def)
qed

lemma update_shop_rating_again:
  assumes u: "update_shop_rating n1 new visible d = Inr d1"
  shows "\<exists>d2. update_shop_rating n2 new visible d1 = Inr d2 \<and>
           map rating_avg (barber_shops d2) = map rating_avg (barber_shops d1) \<and>
           map total_reviews (barber_shops d2) = map total_reviews (barber_shops d1) \<and>
           (n2 = n1 \<longrightarrow> d2 = d1)"
proof (cases "filter (\<lambda>s. s_id s = r_shop_id new) (barber_shops d) = []")
  case True
  with u have "d1 = d" by (simp add: update_shop_rating_def)
  with True show ?thesis by (simp add: update_shop_rating_def)
next
  case False
  with u obtain avg cnt where
    a: "decimal_3_2 (map_option (\<lambda>a. sql_round a 2)
          (sql_avg (map rating (filter (\<lambda>r. r_shop_id r = r_shop_id new) visible)))) = Inr avg"
    and c: "int4 (int (length (filter (\<lambda>r. r_shop_id r = r_shop_id new) visible))) = Inr cnt"
    and d1: "d1 = d\<lparr>barber_shops := sql_update n1 (\<lambda>s. s_id s = r_shop_id new)
                          (\<lambda>s. s\<lparr>rating_avg := avg, total_reviews := Some cnt\<rparr>) (barber_shops d)\<rparr>"
    by (auto simp: update_shop_rating_def split: sum.splits)
  have ne: "filter (\<lambda>s. s_id s = r_shop_id new) (barber_shops d1) \<noteq> []"
  proof -
    have "filter (\<lambda>s. s_id s = r_shop_id new) (barber_shops d1) =
          map (\<lambda>r. if s_id r = r_shop_id new
                    then update_updated_at_column n1 (r\<lparr>rating_avg := avg, total_reviews := Some cnt\<rparr>)
                    else r)
            (filter (\<lambda>s. s_id s = r_shop_id new) (barber_shops d))"
      unfolding d1 sql_update_def
      by (simp add: filter_map_keep update_updated_at_column_def)
    with False show ?thesis by simp
  qed
  have two: "update_shop_rating n2 new visible d1 =
        Inr (d1\<lparr>barber_shops := sql_update n2 (\<lambda>s. s_id s = r_shop_id new)
                          (\<lambda>s. s\<lparr>rating_avg := avg, total_reviews := Some cnt\<rparr>) (barber_shops d1)\<rparr>)"
    using ne a c unfolding update_shop_rating_def by simp
  show ?thesis unfolding two
    by (auto simp: d1 sql_update_def update_updated_at_column_def comp_def intro!: map_idI [symmetric])
qed

lemma insert_review_result:
  assumes "insert_review now new snapshot d = Inr d'"
  shows "update_shop_rating now new (snapshot @ [new]) (d\<lparr>reviews := reviews d @ [new]\<rparr>) = Inr d'
         \<and> 1 \<le> rating new \<and> rating new \<le> 5 \<and> r_shop_id new \<in> s_id ` set (barber_shops d)"
  using assms by (auto simp: insert_review_def split: if_splits)

text \<open>
  What a successful insert leaves when the snapshot of the trigger's statement sees the
  review rows of the shop that the table holds.
\<close>

lemma insert_review_shops:
  assumes chk: "reviews_rating_check d"
    and sees: "mset [r \<leftarrow> snapshot. r_shop_id r = r_shop_id new] = mset (shop_reviews (r_shop_id new) d)"
    and ins: "insert_review now new snapshot d = Inr d'"
  shows "d' = d\<lparr>reviews := reviews d @ [new],
               barber_shops :=
                 map (\<lambda>s. if s_id s = r_shop_id new
                      then s\<lparr>updated_at := Some now,
                             rating_avg := Some (round2 (mean (map rating
                                       (shop_reviews (r_shop_id new) d @ [new])))),
                             total_reviews :=
                               Some (int (length (shop_reviews (r_shop_id new) d @ [new])))\<rparr>
                      else s) (barber_shops d)\<rparr>"
proof -
  let ?S = "r_shop_id new"
  let ?vis = "filter (\<lambda>r. r_shop_id r = ?S) (snapshot @ [new])"
  note r = insert_review_result [OF ins]
  have m: "mset ?vis = mset (shop_reviews ?S d @ [new])" using sees by simp
  have "list_all (\<lambda>r. 1 \<le> rating r \<and> rating r \<le> 5) (shop_reviews ?S d @ [new])"
    using chk r by (simp add: reviews_rating_check_def shop_reviews_def list_all_iff)
  then have c: "list_all (\<lambda>r. 1 \<le> rating r \<and> rating r \<le> 5) ?vis"
    by (simp only: aggregate_mset(4) [OF m])
  have ne: "?vis \<noteq> []" by simp
  from update_shop_rating_result [OF c conjunct1 [OF r]] ne
  show ?thesis
    by (simp only: aggregate_mset(1,2) [OF m] if_False) simp
qed

lemma shop_reviews_append:
  "shop_reviews S (d\<lparr>reviews := reviews d @ [new], barber_shops := ss\<rparr>) =
   (if r_shop_id new = S then shop_reviews S d @ [new] else shop_reviews S d)"
  by (simp add: shop_reviews_def)

text \<open>
  Claim C2, as amended. Let the ratings in the table respect the \<open>CHECK\<close> constraint, the
  snapshot of the trigger's statement see the review rows of the shop that the table
  holds, and the insert of a review succeed. Then the table holds the new row, the shop
  of the review exists, its \<open>rating_avg\<close> is the mean of the ratings of all review rows
  of that shop (the new one among them) rounded to two places, its \<open>total_reviews\<close> is
  their number; and running the trigger function again on the same rows gives the same
  two values (the same database, when \<open>now()\<close> is the same).
\<close>

theorem insert_review_aggregate:
  assumes "reviews_rating_check d"
    and "mset [r \<leftarrow> snapshot. r_shop_id r = r_shop_id new] = mset (shop_reviews (r_shop_id new) d)"
    and "insert_review now new snapshot d = Inr d'"
  shows "reviews d' = reviews d @ [new] \<and>
         list_ex (\<lambda>s. s_id s = r_shop_id new) (barber_shops d') \<and>
         list_all (\<lambda>s. s_id s = r_shop_id new \<longrightarrow>
                     rating_avg s = Some (round2 (mean (map rating (shop_reviews (r_shop_id new) d')))) \<and>
                     total_reviews s = Some (int (length (shop_reviews (r_shop_id new) d'))))
           (barber_shops d') \<and>
         (\<exists>d''. update_shop_rating later new (snapshot @ [new]) d' = Inr d'' \<and>
                map rating_avg (barber_shops d'') = map rating_avg (barber_shops d') \<and>
                map total_reviews (barber_shops d'') = map total_reviews (barber_shops d') \<and>
                (later = now \<longrightarrow> d'' = d'))"
proof -
  note d' = insert_review_shops [OF assms]
  note r = insert_review_result [OF assms(3)]
  have rs: "reviews d' = reviews d @ [new]" unfolding d' by simp
  have sr: "shop_reviews (r_shop_id new) d' = shop_reviews (r_shop_id new) d @ [new]"
    unfolding d' by (simp add: shop_reviews_append)
  have ids: "map s_id (barber_shops d') = map s_id (barber_shops d)"
    unfolding d' by (simp add: comp_def if_distrib cong: if_cong)
  from r have "r_shop_id new \<in> set (map s_id (barber_shops d'))"
    unfolding ids by simp
  then have ex: "list_ex (\<lambda>s. s_id s = r_shop_id new) (barber_shops d')"
    by (auto simp: list_ex_iff)
  have al: "list_all (\<lambda>s. s_id s = r_shop_id new \<longrightarrow>
                     rating_avg s = Some (round2 (mean (map rating (shop_reviews (r_shop_id new) d')))) \<and>
                     total_reviews s = Some (int (length (shop_reviews (r_shop_id new) d'))))
           (barber_shops d')"
    unfolding sr unfolding d' by (auto simp: list_all_iff)
  from update_shop_rating_again [OF conjunct1 [OF r], of later] rs ex al show ?thesis by blast
qed

text \<open>
  Claim C7, as amended. An update of a review's rating by its author changes no shop
  row. After a review insert that succeeded and whose trigger saw the review rows of the
  reviewed shop that the table holds, the cached \<open>rating_avg\<close> and \<open>total_reviews\<close> of
  the reviewed shop agree with its review rows, and every other shop has its row and
  its review rows as before; so when every shop's cache agreed with its review rows
  before the insert, every shop's does after it.
\<close>

theorem insert_review_keeps_caches:
  "(update_review_rating uid rid x d = Inr d2 \<longrightarrow> barber_shops d2 = barber_shops d) \<and>
   (reviews_rating_check d \<and>
    mset [r \<leftarrow> snapshot. r_shop_id r = r_shop_id new] = mset (shop_reviews (r_shop_id new) d) \<and>
    insert_review now new snapshot d = Inr d' \<longrightarrow>
      list_all (\<lambda>s'. s_id s' = r_shop_id new \<longrightarrow> rating_cache_ok d' s') (barber_shops d') \<and>
      list_all2 (\<lambda>s s'. s_id s \<noteq> r_shop_id new \<longrightarrow>
                   s' = s \<and> shop_reviews (s_id s) d' = shop_reviews (s_id s) d)
        (barber_shops d) (barber_shops d') \<and>
      (rating_caches_ok d \<longrightarrow> rating_caches_ok d'))"
proof (intro conjI impI)
  assume "update_review_rating uid rid x d = Inr d2"
  then show "barber_shops d2 = barber_shops d"
    by (auto simp: update_review_rating_def split: if_splits)
next
  assume a: "reviews_rating_check d \<and>
    mset [r \<leftarrow> snapshot. r_shop_id r = r_shop_id new] = mset (shop_reviews (r_shop_id new) d) \<and>
    insert_review now new snapshot d = Inr d'"
  define g where "g = (\<lambda>s :: barber_shop. if s_id s = r_shop_id new
                      then s\<lparr>updated_at := Some now,
                             rating_avg := Some (round2 (mean (map rating
                                       (shop_reviews (r_shop_id new) d @ [new])))),
                             total_reviews :=
                               Some (int (length (shop_reviews (r_shop_id new) d @ [new])))\<rparr>
                      else s)"
  from a have a1: "reviews_rating_check d"
    and a2: "mset [r \<leftarrow> snapshot. r_shop_id r = r_shop_id new] = mset (shop_reviews (r_shop_id new) d)"
    and a3: "insert_review now new snapshot d = Inr d'" by blast+
  have d': "d' = d\<lparr>reviews := reviews d @ [new], barber_shops := map g (barber_shops d)\<rparr>"
    unfolding g_def by (rule insert_review_shops [OF a1 a2 a3])
  have shops: "barber_shops d' = map g (barber_shops d)" unfolding d' by simp
  have sr: "shop_reviews S d' =
      (if r_shop_id new = S then shop_reviews S d @ [new] else shop_reviews S d)" for S
    unfolding d' by (simp add: shop_reviews_append)
  have own: "rating_cache_ok d' (g s)" if "s_id s = r_shop_id new" for s
    using that by (simp add: rating_cache_ok_def sr g_def)
  have keep: "g s = s \<and> shop_reviews (s_id s) d' = shop_reviews (s_id s) d"
    if "s_id s \<noteq> r_shop_id new" for s
    using that by (auto simp: sr g_def)
  have gid: "s_id (g s) = s_id s" for s by (simp add: g_def)
  show "list_all (\<lambda>s'. s_id s' = r_shop_id new \<longrightarrow> rating_cache_ok d' s') (barber_shops d')"
    unfolding shops list_all_iff using own gid by (metis (no_types, lifting) imageE list.set_map)
  show "list_all2 (\<lambda>s s'. s_id s \<noteq> r_shop_id new \<longrightarrow>
                      s' = s \<and> shop_reviews (s_id s) d' = shop_reviews (s_id s) d)
           (barber_shops d) (barber_shops d')"
    unfolding shops list_all2_map_self list_all_iff using keep by blast
  show "rating_caches_ok d'" if ok: "rating_caches_ok d"
  proof -
    have "rating_cache_ok d' (g s)" if s: "s \<in> set (barber_shops d)" for s
    proof (cases "s_id s = r_shop_id new")
      case True
      then show ?thesis by (rule own)
    next
      case False
      from ok s have "rating_cache_ok d s" by (simp add: rating_caches_ok_def list_all_iff)
      with keep [OF False] show ?thesis by (simp add: rating_cache_ok_def)
    qed
    then show ?thesis unfolding rating_caches_ok_def shops list_all_iff by auto
  qed
qed

lemma floor_rat_divide_numeral [simp]:
  "\<lfloor>numeral a / numeral b :: rat\<rfloor> = numeral a div numeral b"
  using floor_divide_of_int_eq [of "numeral a" "numeral b", where ?'a = rat] by simp

lemma floor_rat_one_divide_numeral [simp]:
  "\<lfloor>1 / numeral b :: rat\<rfloor> = 1 div numeral b"
  using floor_divide_of_int_eq [of 1 "numeral b", where ?'a = rat] by simp

lemma round_rat_divide_numeral [simp]:
  "round (numeral a / numeral b :: rat) = (2 * numeral a + numeral b) div (2 * numeral b)"
proof -
  have "numeral a / numeral b + 1 / 2 = (of_int (2 * numeral a + numeral b) / of_int (2 * numeral b) :: rat)"
    by (simp add: field_simps)
  then show ?thesis
    unfolding round_def by (simp only: floor_divide_of_int_eq)
qed

lemmas review_defs = new_review_def review_base_db_def one_review_db_def two_reviews_db_def
  overlap_db_def overlap_db_after_def
  new_shop_def migration_enum_types_def insert_review_def update_shop_rating_def
  update_review_rating_def shop_reviews_def sql_avg_def sql_round_def decimal_3_2_def int4_def
  sql_update_def update_updated_at_column_def rating_cache_ok_def rating_caches_ok_def
  reviews_rating_check_def mean_def round2_def Let_def

text \<open>
  Shop 1 with the ratings 5 and 4 receives a third review with 4, beside shop 2 with the
  rating 1: the mean 13/3 is cached as 4.33, the count as 3, and shop 2 keeps its row.
\<close>

theorem insert_review_aggregate_example:
  "reviews_rating_check two_reviews_db \<and>
   mset [r \<leftarrow> reviews two_reviews_db. r_shop_id r = r_shop_id (new_review 102 5 1 4)] =
     mset (shop_reviews (r_shop_id (new_review 102 5 1 4)) two_reviews_db) \<and>
   insert_review 700 (new_review 102 5 1 4) (reviews two_reviews_db) two_reviews_db =
     Inr (two_reviews_db
            \<lparr>barber_shops := [(new_shop 1 7 (Some 30))
                 \<lparr>updated_at := Some 700, rating_avg := Some (433 / 100), total_reviews := Some 3\<rparr>,
               (new_shop 2 8 (Some 20))
                 \<lparr>updated_at := Some 400, rating_avg := Some 1, total_reviews := Some 1\<rparr>],
             reviews := [new_review 200 4 2 1, new_review 100 3 1 5, new_review 101 4 1 4,
                         new_review 102 5 1 4]\<rparr>)"
  using insert_review_aggregate [where d = two_reviews_db and snapshot = "reviews two_reviews_db"
      and new = "new_review 102 5 1 4" and now = 700]
  by (simp add: review_defs)

text \<open>
  Claim C2 as stated fails: customer 5 inserts a review with 3 for shop 1 in a
  transaction whose statement began before the insert of customer 4 was committed, so
  that its snapshot holds the review of customer 3 only. The trigger caches (3.00, 2),
  while the three review rows of the shop give (3.33, 3).
\<close>

theorem overlapping_inserts_lose_a_review:
  "reviews_rating_check overlap_db \<and>
   insert_review 640 (new_review 102 5 1 3) [new_review 200 4 2 1, new_review 100 3 1 3] overlap_db =
     Inr overlap_db_after \<and>
   map (\<lambda>s. (s_id s, rating_avg s, total_reviews s)) (barber_shops overlap_db_after) =
     [(1, Some 3, Some 2), (2, Some 1, Some 1)] \<and>
   map rating (shop_reviews 1 overlap_db_after) = [3, 4, 3] \<and>
   round2 (mean (map rating (shop_reviews 1 overlap_db_after))) = 333 / 100 \<and>
   \<not> rating_caches_ok overlap_db_after"
  by (simp add: review_defs)

text \<open>
  Claim C7 as stated fails: customer 3 reviews shop 1 with 5, the cache is (5.00, 1);
  the customer then corrects the rating to 1, as the policy allows, and the cache still
  says (5.00, 1) while the reviews give (1.00, 1).
\<close>

theorem review_update_leaves_cache_stale:
  "insert_review 500 (new_review 100 3 1 5) (reviews review_base_db) review_base_db = Inr one_review_db \<and>
   rating_caches_ok one_review_db \<and>
   update_review_rating 3 100 1 one_review_db =
     Inr (one_review_db\<lparr>reviews := [new_review 200 4 2 1, new_review 100 3 1 1]\<rparr>) \<and>
   \<not> rating_caches_ok (one_review_db\<lparr>reviews := [new_review 200 4 2 1, new_review 100 3 1 1]\<rparr>)"
  by (simp add: review_defs)

text \<open>
  The second review of shop 1: the caches agree before and after; and the correction of
  the first review, which leaves the shop rows alone.
\<close>

theorem insert_review_keeps_caches_example:
  "reviews_rating_check one_review_db \<and> rating_caches_ok one_review_db \<and>
   mset [r \<leftarrow> reviews one_review_db. r_shop_id r = r_shop_id (new_review 101 4 1 4)] =
     mset (shop_reviews (r_shop_id (new_review 101 4 1 4)) one_review_db) \<and>
   insert_review 600 (new_review 101 4 1 4) (reviews one_review_db) one_review_db = Inr two_reviews_db \<and>
   rating_caches_ok two_reviews_db \<and>
   update_review_rating 3 100 1 one_review_db =
     Inr (one_review_db\<lparr>reviews := [new_review 200 4 2 1, new_review 100 3 1 1]\<rparr>) \<and>
   barber_shops (one_review_db\<lparr>reviews := [new_review 200 4 2 1, new_review 100 3 1 1]\<rparr>) =
     barber_shops one_review_db"
  using insert_review_keeps_caches [where uid = 3 and rid = 100 and x = 1 and d = one_review_db
      and ?d2.0 = "one_review_db\<lparr>reviews := [new_review 200 4 2 1, new_review 100 3 1 1]\<rparr>"
      and snapshot = "reviews one_review_db" and new = "new_review 101 4 1 4" and now = 600
      and d' = two_reviews_db]
  by (simp add: review_defs)

section \<open>Identity-linked profile creation: errors and defaults\<close>

lemmas user_defs = migrated_db_def ann_def bob_def eve_def ann_profile_def ann_db_def resolving_def
  migration_enum_types_def handle_new_user_def handle_new_user_search_path_def type_resolves_def
  create_identity_def insert_profile_def cast_user_role_def json_get_text_def coalesce_def
  user_profiles_def

text \<open>
  Claim C5 fails on the code. In the database the migrations create, the type
  \<open>user_role\<close> lives in \<open>public\<close>, the function runs with an empty search path, and the
  cast \<open>::user_role\<close> does not resolve: for a signup without a role the function raises
  \<open>type "user_role" does not exist\<close>, no profile row is written, and the creation of the
  identity is undone.
\<close>

theorem handle_new_user_type_unresolved:
  "handle_new_user 1000 50 ann (migrated_db\<lparr>users := [ann]\<rparr>) = Inl (Undefined_object ''user_role'') \<and>
   create_identity 1000 50 ann migrated_db = Inl (Undefined_object ''user_role'')"
  by (simp add: user_defs)

lemma handle_new_user_unresolved:
  "\<not> type_resolves [] (enum_types d) ''user_role'' \<Longrightarrow>
   handle_new_user now gen new d = Inl (Undefined_object ''user_role'')"
  by (simp add: handle_new_user_def handle_new_user_search_path_def)

text \<open>
  Where the type name resolves, the function does write the one profile row, with the
  defaults for a missing name, phone and role.
\<close>

lemma handle_new_user_resolved:
  assumes "type_resolves [] (enum_types d) ''user_role''"
    and "gen \<notin> set (map p_id (profiles d))"
    and "user_profiles (u_id new) d = []"
    and "u_id new \<in> set (map u_id (users d))"
    and "cast_user_role (json_get_text (raw_user_meta_data new) ''role'') = Inr r"
  shows "handle_new_user now gen new d =
           Inr (d\<lparr>profiles := profiles d @
                  [\<lparr>updated_at = Some now, p_id = gen, p_user_id = u_id new,
                    name = coalesce (json_get_text (raw_user_meta_data new) ''name'') [],
                    phone = Some (coalesce (json_get_text (raw_user_meta_data new) ''phone'') []),
                    role = coalesce r Customer, p_created_at = Some now\<rparr>]\<rparr>)"
proof -
  from assms(3) have "u_id new \<notin> set (map p_user_id (profiles d))"
    by (auto simp: user_profiles_def filter_empty_conv)
  with assms(1,2,4,5) show ?thesis
    by (simp add: handle_new_user_def handle_new_user_search_path_def insert_profile_def)
qed

text \<open>The signup without a role, where the type resolves.\<close>

lemma handle_new_user_resolved_example:
  "create_identity 1000 50 ann (resolving migrated_db) =
     Inr (resolving migrated_db
            \<lparr>users := [ann],
             profiles := [\<lparr>updated_at = Some 1000, p_id = 50, p_user_id = 1, name = ''Ann'',
                           phone = Some ''555'', role = Customer, p_created_at = Some 1000\<rparr>]\<rparr>)"
  by (simp add: user_defs)

text \<open>
  Claim C6, as amended. The routine handles no conflict and no error: fired for an
  identity that already has a profile row it raises, and whenever it raises in the
  trigger of an identity insert, the creation of the identity fails.
\<close>

theorem handle_new_user_raises:
  "(user_profiles (u_id new) d \<noteq> [] \<longrightarrow> (\<exists>e. handle_new_user now gen new d = Inl e)) \<and>
   (\<forall>e. handle_new_user now gen new (d\<lparr>users := users d @ [new]\<rparr>) = Inl e \<longrightarrow>
        (\<exists>e'. create_identity now gen new d = Inl e'))"
proof -
  have "\<exists>e. handle_new_user now gen new d = Inl e" if "user_profiles (u_id new) d \<noteq> []"
  proof -
    from that obtain p where "p \<in> set (profiles d)" "p_user_id p = u_id new"
      by (auto simp: user_profiles_def filter_empty_conv)
    then have "u_id new \<in> set (map p_user_id (profiles d))"
      by (metis image_eqI set_map)
    then show ?thesis
      by (auto simp: handle_new_user_def insert_profile_def split: sum.splits)
  qed
  moreover have "\<exists>e'. create_identity now gen new d = Inl e'"
    if "handle_new_user now gen new (d\<lparr>users := users d @ [new]\<rparr>) = Inl e" for e
    using that by (simp add: create_identity_def)
  ultimately show ?thesis by blast
qed

text \<open>
  Claim C6 as stated fails: identity 1 has its profile; firing the routine for it again
  raises (in the migrated database because the cast does not resolve, and where the cast
  resolves because of \<open>UNIQUE(user_id)\<close>), and a signup whose profile insert fails is
  aborted (in the migrated database any signup, and where the cast resolves one with a
  role text that is no label).
\<close>

theorem handle_new_user_duplicate_counterexample:
  "user_profiles 1 ann_db = [ann_profile] \<and>
   handle_new_user 2000 51 ann ann_db = Inl (Undefined_object ''user_role'') \<and>
   handle_new_user 2000 51 ann (resolving ann_db) = Inl Unique_violation \<and>
   create_identity 2000 51 bob ann_db = Inl (Undefined_object ''user_role'') \<and>
   create_identity 2000 51 eve (resolving ann_db) = Inl (Invalid_text_representation ''owner'')"
  by (simp add: user_defs)

text \<open>
  The routine fired again for identity 1, and the signup of identity 2, in the database
  where identity 1 has its profile.
\<close>

theorem handle_new_user_raises_example:
  "user_profiles (u_id ann) ann_db \<noteq> [] \<and>
   handle_new_user 2000 51 ann ann_db = Inl (Undefined_object ''user_role'') \<and>
   handle_new_user 2000 51 bob (ann_db\<lparr>users := users ann_db @ [bob]\<rparr>) = Inl (Undefined_object ''user_role'') \<and>
   create_identity 2000 51 bob ann_db = Inl (Undefined_object ''user_role'')"
  using handle_new_user_raises [of ann ann_db 2000 51] handle_new_user_raises [of bob ann_db 2000 51]
  by (simp add: user_defs)

lemma cast_user_role_Inr:
  "cast_user_role x = Inr r \<Longrightarrow>
   (case x of None \<Rightarrow> r = None | Some t \<Rightarrow> (\<exists>v. r = Some v \<and> role_label v = t))"
  by (auto simp: cast_user_role_def split: option.splits if_splits)

lemma cast_user_role_invalid:
  "t \<notin> set (map role_label [Customer, Barber, Admin]) \<Longrightarrow>
   cast_user_role (Some t) = Inl (Invalid_text_representation t)"
  by (auto simp: cast_user_role_def)

text \<open>
  Claim C9. When the metadata gives a role text that is no label of \<open>user_role\<close>, the
  function raises at the cast (the type name does not resolve, or the text is no label),
  and the identity insert that fired it fails, so no profile row is written. When the
  function returns normally it has appended one profile row for the identity, whose role
  is \<open>customer\<close> by default only if the metadata gave no role text, and otherwise is the
  role the text names.
\<close>

theorem handle_new_user_role_cast:
  "(\<forall>t. json_get_text (raw_user_meta_data new) ''role'' = Some t \<and>
        t \<notin> set (map role_label [Customer, Barber, Admin]) \<longrightarrow>
        (\<exists>e. handle_new_user now gen new d = Inl e \<and>
              (e = Undefined_object ''user_role'' \<or> e = Invalid_text_representation t)) \<and>
        (\<exists>e. create_identity now gen new d = Inl e)) \<and>
   (\<forall>d'. handle_new_user now gen new d = Inr d' \<longrightarrow>
        (\<exists>p. profiles d' = profiles d @ [p] \<and> p_user_id p = u_id new \<and>
             (case json_get_text (raw_user_meta_data new) ''role'' of
                None \<Rightarrow> role p = Customer
              | Some t \<Rightarrow> role_label (role p) = t)))"
proof (intro conjI allI impI)
  fix t
  assume a: "json_get_text (raw_user_meta_data new) ''role'' = Some t \<and>
             t \<notin> set (map role_label [Customer, Barber, Admin])"
  then have c: "cast_user_role (json_get_text (raw_user_meta_data new) ''role'') =
                Inl (Invalid_text_representation t)"
    by (simp add: cast_user_role_invalid)
  then show "\<exists>e. handle_new_user now gen new d = Inl e \<and>
              (e = Undefined_object ''user_role'' \<or> e = Invalid_text_representation t)"
    by (simp add: handle_new_user_def)
  from c show "\<exists>e. create_identity now gen new d = Inl e"
    by (simp add: create_identity_def handle_new_user_def)
next
  fix d'
  assume ok: "handle_new_user now gen new d = Inr d'"
  then obtain r where r: "cast_user_role (json_get_text (raw_user_meta_data new) ''role'') = Inr r"
    and ins: "insert_profile
              \<lparr>updated_at = Some now, p_id = gen, p_user_id = u_id new,
               name = coalesce (json_get_text (raw_user_meta_data new) ''name'') [],
               phone = Some (coalesce (json_get_text (raw_user_meta_data new) ''phone'') []),
               role = coalesce r Customer, p_created_at = Some now\<rparr> d = Inr d'"
    by (auto simp: handle_new_user_def split: if_splits sum.splits)
  let ?p = "\<lparr>updated_at = Some now, p_id = gen, p_user_id = u_id new,
               name = coalesce (json_get_text (raw_user_meta_data new) ''name'') [],
               phone = Some (coalesce (json_get_text (raw_user_meta_data new) ''phone'') []),
               role = coalesce r Customer, p_created_at = Some now\<rparr>"
  from ins have p: "profiles d' = profiles d @ [?p]"
    by (auto simp: insert_profile_def split: if_splits)
  have "case json_get_text (raw_user_meta_data new) ''role'' of
          None \<Rightarrow> role ?p = Customer | Some t \<Rightarrow> role_label (role ?p) = t"
    using cast_user_role_Inr [OF r] by (auto simp: coalesce_def split: option.splits)
  with p show "\<exists>p. profiles d' = profiles d @ [p] \<and> p_user_id p = u_id new \<and>
             (case json_get_text (raw_user_meta_data new) ''role'' of
                None \<Rightarrow> role p = Customer
              | Some t \<Rightarrow> role_label (role p) = t)"
    by (intro exI [of _ ?p]) simp
qed

text \<open>
  A signup with the role text \<open>owner\<close> fails, in the migrated database and where the
  type resolves; a signup with the role text \<open>barber\<close>, where the type resolves, gets a
  profile with the role \<open>barber\<close>.
\<close>

theorem handle_new_user_role_cast_example:
  "json_get_text (raw_user_meta_data eve) ''role'' = Some ''owner'' \<and>
   ''owner'' \<notin> set (map role_label [Customer, Barber, Admin]) \<and>
   create_identity 1000 50 eve migrated_db = Inl (Undefined_object ''user_role'') \<and>
   create_identity 1000 50 eve (resolving migrated_db) = Inl (Invalid_text_representation ''owner'') \<and>
   handle_new_user 1000 50 bob (resolving (migrated_db\<lparr>users := [bob]\<rparr>)) =
     Inr (resolving (migrated_db\<lparr>users := [bob]\<rparr>)
            \<lparr>profiles := [\<lparr>updated_at = Some 1000, p_id = 50, p_user_id = 2, name = ''Bob'',
                           phone = Some [], role = Barber, p_created_at = Some 1000\<rparr>]\<rparr>)"
  using handle_new_user_role_cast [of eve 1000 50 "migrated_db\<lparr>users := [eve]\<rparr>"]
    handle_new_user_role_cast [of bob 1000 50 "resolving (migrated_db\<lparr>users := [bob]\<rparr>)"]
  by (simp add: user_defs)

end
